theory Spec2Isabelle
  imports Main "HOL-Library.Word"
begin

section \<open>Error codes shared by both source files\<close>

text \<open>
  The values of \<open>errno\<close> the two files test for or that the modelled system calls can
  produce. \<open>EAGAIN\<close> and \<open>EWOULDBLOCK\<close> are kept apart, as the source tests for both.
\<close>

datatype errno =
  EAGAIN | EWOULDBLOCK | EBADF | EEXIST | ENOENT | ENXIO | EMFILE | EPIPE | EINVAL | EINTR | EIO
  | ENOMEM | EACCES

datatype CHIP_ERROR =
  CHIP_NO_ERROR
  | CHIP_ERROR_OPEN_FAILED
  | CHIP_ERROR_NOT_FOUND
  | CHIP_ERROR_INTERNAL
  | CHIP_ERROR_POSIX errno
  | CHIP_ERROR_OTHER nat

section \<open>NetworkCommissioningWiFiDriverNuttx.cpp\<close>

type_synonym byte = "8 word"

text \<open>
  \<open>struct WiFiNetwork\<close>: two fixed-size byte arrays and their \<open>uint8_t\<close> fill lengths. An
  array is a list whose length is the array's \<open>sizeof\<close>; the sizes themselves
  (\<open>kMaxWiFiSSIDLength\<close>, \<open>kMaxWiFiKeyLength\<close>) are declared in a header outside the two
  source files and stay a property of the state.
\<close>

record WiFiNetwork =
  ssid :: "byte list"
  ssidLen :: "8 word"
  credentials :: "byte list"
  credentialsLen :: "8 word"

record NuttxWiFiDriver =
  mSavedNetwork :: WiFiNetwork
  mStagingNetwork :: WiFiNetwork

datatype Status = kSuccess | kOutOfRange | kBoundsExceeded | kNetworkIDNotFound | kUnknownError

text \<open>\<open>memcpy(dst, src, n)\<close> on arrays: the first \<open>n\<close> bytes of \<open>dst\<close> are replaced.\<close>

definition memcpy :: "byte list \<Rightarrow> byte list \<Rightarrow> nat \<Rightarrow> byte list" where
  "memcpy dst src n = take n src @ drop n dst"

text \<open>\<open>memcmp(a, b, n) == 0\<close>: the first \<open>n\<close> bytes agree.\<close>

definition memcmp_eq :: "byte list \<Rightarrow> byte list \<Rightarrow> nat \<Rightarrow> bool" where
  "memcmp_eq a b n = (take n a = take n b)"

text \<open>
  \<open>CommitConfiguration\<close> writes the staged SSID and credentials to the key-value store
  and, only when both writes succeed, makes the staged network the saved one. The store
  is not part of the two source files: its \<open>Put\<close> is the parameter \<open>put\<close>, any function
  from key, value and store to an error code and a new store.
\<close>

definition kWiFiSSIDKeyName :: string where
  "kWiFiSSIDKeyName = ''wifi-ssid''"

definition kWiFiCredentialsKeyName :: string where
  "kWiFiCredentialsKeyName = ''wifi-pass''"

definition CommitConfiguration ::
  "(string \<Rightarrow> byte list \<Rightarrow> 'kvs \<Rightarrow> CHIP_ERROR \<times> 'kvs) \<Rightarrow> NuttxWiFiDriver \<times> 'kvs
    \<Rightarrow> CHIP_ERROR \<times> NuttxWiFiDriver \<times> 'kvs" where
  "CommitConfiguration put dk =
     (let d = fst dk; k = snd dk; staging = mStagingNetwork d;
          r1 = put kWiFiSSIDKeyName (take (unat (ssidLen staging)) (ssid staging)) k
      in if fst r1 \<noteq> CHIP_NO_ERROR then (fst r1, d, snd r1)
         else
           let r2 = put kWiFiCredentialsKeyName
                      (take (unat (credentialsLen staging)) (credentials staging)) (snd r1)
           in if fst r2 \<noteq> CHIP_NO_ERROR then (fst r2, d, snd r2)
              else (CHIP_NO_ERROR, d\<lparr>mSavedNetwork := mStagingNetwork d\<rparr>, snd r2))"

definition RevertConfiguration :: "NuttxWiFiDriver \<Rightarrow> CHIP_ERROR \<times> NuttxWiFiDriver" where
  "RevertConfiguration d = (CHIP_NO_ERROR, d\<lparr>mStagingNetwork := mSavedNetwork d\<rparr>)"

definition NetworkMatch :: "WiFiNetwork \<Rightarrow> byte list \<Rightarrow> bool" where
  "NetworkMatch network networkId =
     (length networkId = unat (ssidLen network)
      \<and> memcmp_eq networkId (ssid network) (unat (ssidLen network)))"

text \<open>
  \<open>AddOrUpdateNetwork\<close> returns the status, the debug text (always cut to length 0), the
  network index (always 0) and the driver. \<open>static_cast\<close> to the \<open>uint8_t\<close> length fields is
  \<open>of_nat\<close>.
\<close>

definition AddOrUpdateNetwork ::
  "byte list \<Rightarrow> byte list \<Rightarrow> string \<Rightarrow> NuttxWiFiDriver
    \<Rightarrow> Status \<times> string \<times> 8 word \<times> NuttxWiFiDriver" where
  "AddOrUpdateNetwork ssid_in credentials_in outDebugText d =
     (let staging = mStagingNetwork d; outText = take 0 outDebugText; outNetworkIndex = 0
      in if \<not> (ssidLen staging = 0 \<or> NetworkMatch staging ssid_in)
           then (kBoundsExceeded, outText, outNetworkIndex, d)
         else if \<not> length credentials_in \<le> length (credentials staging)
           then (kOutOfRange, outText, outNetworkIndex, d)
         else if \<not> length ssid_in \<le> length (ssid staging)
           then (kOutOfRange, outText, outNetworkIndex, d)
         else
           (kSuccess, outText, outNetworkIndex,
            d\<lparr>mStagingNetwork := staging
                \<lparr>credentials := memcpy (credentials staging) credentials_in (length credentials_in),
                 credentialsLen := of_nat (length credentials_in),
                 ssid := memcpy (ssid staging) ssid_in (length ssid_in),
                 ssidLen := of_nat (length ssid_in)\<rparr>\<rparr>))"

definition RemoveNetwork ::
  "byte list \<Rightarrow> string \<Rightarrow> NuttxWiFiDriver \<Rightarrow> Status \<times> string \<times> 8 word \<times> NuttxWiFiDriver" where
  "RemoveNetwork networkId outDebugText d =
     (let outText = take 0 outDebugText; outNetworkIndex = 0
      in if \<not> NetworkMatch (mStagingNetwork d) networkId
           then (kNetworkIDNotFound, outText, outNetworkIndex, d)
         else (kSuccess, outText, outNetworkIndex,
               d\<lparr>mStagingNetwork := (mStagingNetwork d)\<lparr>ssidLen := 0\<rparr>\<rparr>))"

text \<open>\<open>WiFiNetworkIterator::Count\<close>, on the driver the iterator points to.\<close>

definition Count :: "NuttxWiFiDriver \<Rightarrow> nat" where
  "Count d = (if ssidLen (mStagingNetwork d) = 0 then 0 else 1)"


section \<open>The environment of WakeEvent.cpp: descriptors, pipes, FIFOs and event counters\<close>

text \<open>
  \<open>WakeEvent.cpp\<close> is a sequence of system calls, so its behaviour is stated over a model
  of the process and kernel state these calls read and change. The model follows the
  POSIX and Linux manual pages of \<open>pipe\<close>, \<open>mkfifo\<close>, \<open>open\<close>, \<open>fcntl\<close>, \<open>read\<close>, \<open>write\<close>,
  \<open>close\<close> and \<open>eventfd\<close> for a single thread of control:
  \<^item> a call either returns an integer (\<open>-1\<close> with \<open>errno\<close> set on failure) or, on a blocking
    descriptor that cannot proceed, does not return (\<open>Hang\<close>);
  \<^item> every call is appended to a trace, so the order of calls can be stated;
  \<^item> besides the failures that follow from the state (a bad descriptor, a full pipe, a
    FIFO without reader), any call can be made to fail with a chosen \<open>errno\<close> by the
    script \<open>faults\<close>: each call consumes the head of the script, and \<open>Some e\<close> makes it
    fail with \<open>e\<close>. An empty script is an environment without such failures.
\<close>

datatype oflag = O_RDONLY | O_WRONLY | O_RDWR | O_NONBLOCK

datatype efd_flag = EFD_NONBLOCK | EFD_CLOEXEC

datatype vnode = PipeReadEnd nat | PipeWriteEnd nat | EventCounter nat

datatype open_file = OpenFile (target: vnode) (nonblock: bool)

record pipe =
  buffered :: nat
  capacity :: nat
  readers :: nat
  writers :: nat

datatype sysret = Ret int | Hang

datatype event =
  EvPipe
  | EvFcntlGetfl int
  | EvFcntlSetfl int "oflag set"
  | EvMkfifo string
  | EvOpen string "oflag set"
  | EvRead int nat
  | EvWrite int nat
  | EvClose int
  | EvEventfd
  | EvStartWatchingSocket int
  | EvSetCallback "nat option"
  | EvRequestCallbackOnPendingRead "nat option"
  | EvStopWatchingSocket "nat option"

text \<open>
  The handle: \<open>mReadFD\<close>, \<open>mWriteFD\<close> (used by the pipe and FIFO builds only) and the watch
  token \<open>mReadWatch\<close>, where \<open>None\<close> is the invalid token.
\<close>

record WakeEvent =
  mReadFD :: int
  mWriteFD :: int
  mReadWatch :: "nat option"

record watch =
  watch_fd :: int
  watch_callback :: bool
  watch_pending_read :: bool

text \<open>
  The state: the descriptor table of the process (a fixed number of slots), the pipe and
  FIFO objects, the event counters, the FIFO nodes of the file system by path, the size
  new pipes get, \<open>errno\<close>, the fault script, the watches of the socket multiplexer
  (\<open>LayerSockets\<close>), the trace of calls, the lines written by \<open>ChipLogError\<close>, and the
  \<open>WakeEvent\<close> object itself.
\<close>

record world =
  fdtab :: "open_file option list"
  pipes :: "pipe list"
  counters :: "64 word list"
  fifos :: "(string \<times> nat) list"
  pipe_size :: nat
  cur_errno :: errno
  faults :: "errno option list"
  watches :: "watch option list"
  trace :: "event list"
  chip_log :: "string list"
  wake :: WakeEvent

fun first_free :: "'a option list \<Rightarrow> nat option" where
  "first_free [] = None"
| "first_free (None # xs) = Some 0"
| "first_free (Some x # xs) = map_option Suc (first_free xs)"

definition fd_lookup :: "world \<Rightarrow> int \<Rightarrow> open_file option" where
  "fd_lookup w fd = (if 0 \<le> fd \<and> nat fd < length (fdtab w) then fdtab w ! nat fd else None)"

text \<open>Entering a call: it is traced, and the head of the fault script is consumed.\<close>

definition sys_enter :: "event \<Rightarrow> world \<Rightarrow> errno option \<times> world" where
  "sys_enter e w =
     (case faults w of
        [] \<Rightarrow> (None, w\<lparr>trace := trace w @ [e]\<rparr>)
      | f # fs \<Rightarrow> (f, w\<lparr>trace := trace w @ [e], faults := fs\<rparr>))"

definition sys_fail :: "errno \<Rightarrow> world \<Rightarrow> world" where
  "sys_fail e w = w\<lparr>cur_errno := e\<rparr>"

text \<open>
  \<open>pipe(fds)\<close>: a new pipe with one reader and one writer, both descriptors blocking. The
  result is the return value and the two descriptors (\<open>-1\<close> where the call left \<open>fds\<close>
  unset).
\<close>

definition sys_pipe :: "world \<Rightarrow> (int \<times> int \<times> int) \<times> world" where
  "sys_pipe w0 =
     (case sys_enter EvPipe w0 of
        (Some e, w) \<Rightarrow> ((- 1, - 1, - 1), sys_fail e w)
      | (None, w) \<Rightarrow>
          (case first_free (fdtab w) of
             None \<Rightarrow> ((- 1, - 1, - 1), sys_fail EMFILE w)
           | Some r \<Rightarrow>
               (case first_free ((fdtab w)[r := Some (OpenFile (PipeReadEnd (length (pipes w))) False)]) of
                  None \<Rightarrow> ((- 1, - 1, - 1), sys_fail EMFILE w)
                | Some wr \<Rightarrow>
                    ((0, int r, int wr),
                     w\<lparr>fdtab := (fdtab w)
                          [r := Some (OpenFile (PipeReadEnd (length (pipes w))) False),
                           wr := Some (OpenFile (PipeWriteEnd (length (pipes w))) False)],
                       pipes := pipes w @
                          [\<lparr>buffered = 0, capacity = pipe_size w, readers = 1, writers = 1\<rparr>]\<rparr>))))"

text \<open>
  \<open>fcntl(fd, F_GETFL, 0)\<close> and \<open>fcntl(fd, F_SETFL, flags)\<close>. A flag word is the set of its
  flags; the failure value \<open>-1\<close> of \<open>F_GETFL\<close>, all bits set, is \<open>UNIV\<close>.
\<close>

definition file_flags :: "open_file \<Rightarrow> oflag set" where
  "file_flags f =
     (case target f of PipeReadEnd p \<Rightarrow> {O_RDONLY} | PipeWriteEnd p \<Rightarrow> {O_WRONLY}
        | EventCounter c \<Rightarrow> {O_RDWR})
     \<union> (if nonblock f then {O_NONBLOCK} else {})"

definition sys_fcntl_getfl :: "int \<Rightarrow> world \<Rightarrow> oflag set \<times> world" where
  "sys_fcntl_getfl fd w0 =
     (case sys_enter (EvFcntlGetfl fd) w0 of
        (Some e, w) \<Rightarrow> (UNIV, sys_fail e w)
      | (None, w) \<Rightarrow>
          (case fd_lookup w fd of
             None \<Rightarrow> (UNIV, sys_fail EBADF w)
           | Some f \<Rightarrow> (file_flags f, w)))"

definition sys_fcntl_setfl :: "int \<Rightarrow> oflag set \<Rightarrow> world \<Rightarrow> int \<times> world" where
  "sys_fcntl_setfl fd flags w0 =
     (case sys_enter (EvFcntlSetfl fd flags) w0 of
        (Some e, w) \<Rightarrow> (- 1, sys_fail e w)
      | (None, w) \<Rightarrow>
          (case fd_lookup w fd of
             None \<Rightarrow> (- 1, sys_fail EBADF w)
           | Some f \<Rightarrow>
               (0, w\<lparr>fdtab := (fdtab w)[nat fd := Some (OpenFile (target f) (O_NONBLOCK \<in> flags))]\<rparr>)))"

text \<open>\<open>mkfifo(path, mode)\<close>: a new FIFO without reader or writer, unless the path exists.\<close>

definition sys_mkfifo :: "string \<Rightarrow> world \<Rightarrow> int \<times> world" where
  "sys_mkfifo path w0 =
     (case sys_enter (EvMkfifo path) w0 of
        (Some e, w) \<Rightarrow> (- 1, sys_fail e w)
      | (None, w) \<Rightarrow>
          (case map_of (fifos w) path of
             Some p \<Rightarrow> (- 1, sys_fail EEXIST w)
           | None \<Rightarrow>
               (0, w\<lparr>fifos := (path, length (pipes w)) # fifos w,
                      pipes := pipes w @
                        [\<lparr>buffered = 0, capacity = pipe_size w, readers = 0, writers = 0\<rparr>]\<rparr>)))"

text \<open>
  \<open>open(path, flags)\<close> on a FIFO. Opening for writing needs a reader: without one a
  non-blocking open fails with \<open>ENXIO\<close> and a blocking open waits. A blocking open for
  reading waits for a writer.
\<close>

definition sys_open :: "string \<Rightarrow> oflag set \<Rightarrow> world \<Rightarrow> sysret \<times> world" where
  "sys_open path flags w0 =
     (case sys_enter (EvOpen path flags) w0 of
        (Some e, w) \<Rightarrow> (Ret (- 1), sys_fail e w)
      | (None, w) \<Rightarrow>
          (case map_of (fifos w) path of
             None \<Rightarrow> (Ret (- 1), sys_fail ENOENT w)
           | Some p \<Rightarrow>
               if \<not> p < length (pipes w) then (Ret (- 1), sys_fail ENXIO w)
               else
                 (case first_free (fdtab w) of
                    None \<Rightarrow> (Ret (- 1), sys_fail EMFILE w)
                  | Some fd \<Rightarrow>
                      if O_WRONLY \<in> flags then
                        (if readers (pipes w ! p) = 0
                         then (if O_NONBLOCK \<in> flags then (Ret (- 1), sys_fail ENXIO w)
                               else (Hang, w))
                         else
                           (Ret (int fd),
                            w\<lparr>fdtab := (fdtab w)
                                 [fd := Some (OpenFile (PipeWriteEnd p) (O_NONBLOCK \<in> flags))],
                              pipes := (pipes w)
                                 [p := (pipes w ! p)\<lparr>writers := Suc (writers (pipes w ! p))\<rparr>]\<rparr>))
                      else
                        (if writers (pipes w ! p) = 0 \<and> O_NONBLOCK \<notin> flags then (Hang, w)
                         else
                           (Ret (int fd),
                            w\<lparr>fdtab := (fdtab w)
                                 [fd := Some (OpenFile (PipeReadEnd p) (O_NONBLOCK \<in> flags))],
                              pipes := (pipes w)
                                 [p := (pipes w ! p)\<lparr>readers := Suc (readers (pipes w ! p))\<rparr>]\<rparr>)))))"

text \<open>
  \<open>close(fd)\<close>. An open descriptor is released even when the call reports an error, as
  Linux and NuttX do; only a descriptor that is not open is left alone (\<open>EBADF\<close>).
\<close>

definition release_end :: "vnode \<Rightarrow> pipe list \<Rightarrow> pipe list" where
  "release_end t ps =
     (case t of
        PipeReadEnd p \<Rightarrow> ps[p := (ps ! p)\<lparr>readers := readers (ps ! p) - 1\<rparr>]
      | PipeWriteEnd p \<Rightarrow> ps[p := (ps ! p)\<lparr>writers := writers (ps ! p) - 1\<rparr>]
      | EventCounter c \<Rightarrow> ps)"

definition sys_close :: "int \<Rightarrow> world \<Rightarrow> int \<times> world" where
  "sys_close fd w0 =
     (case sys_enter (EvClose fd) w0 of
        (f, w) \<Rightarrow>
          (case fd_lookup w fd of
             None \<Rightarrow> (- 1, sys_fail (case f of Some e \<Rightarrow> e | None \<Rightarrow> EBADF) w)
           | Some ofile \<Rightarrow>
               (case f of
                  Some e \<Rightarrow>
                    (- 1, sys_fail e
                       (w\<lparr>fdtab := (fdtab w)[nat fd := None],
                          pipes := release_end (target ofile) (pipes w)\<rparr>))
                | None \<Rightarrow>
                    (0, w\<lparr>fdtab := (fdtab w)[nat fd := None],
                           pipes := release_end (target ofile) (pipes w)\<rparr>))))"

text \<open>
  \<open>read(fd, buffer, count)\<close> on the read end of a pipe or FIFO: up to \<open>count\<close> of the
  buffered bytes are taken; on an empty pipe the call reports end of file when no writer
  is left, \<open>EAGAIN\<close> on a non-blocking descriptor, and waits otherwise. The bytes read
  are not part of the result: the one caller drops them.
\<close>

definition sys_read :: "int \<Rightarrow> nat \<Rightarrow> world \<Rightarrow> sysret \<times> world" where
  "sys_read fd count w0 =
     (case sys_enter (EvRead fd count) w0 of
        (Some e, w) \<Rightarrow> (Ret (- 1), sys_fail e w)
      | (None, w) \<Rightarrow>
          (case fd_lookup w fd of
             Some (OpenFile (PipeReadEnd p) nb) \<Rightarrow>
               if \<not> p < length (pipes w) then (Ret (- 1), sys_fail EBADF w)
               else if 0 < buffered (pipes w ! p) then
                 (Ret (int (min count (buffered (pipes w ! p)))),
                  w\<lparr>pipes := (pipes w)
                       [p := (pipes w ! p)
                          \<lparr>buffered := buffered (pipes w ! p) - min count (buffered (pipes w ! p))\<rparr>]\<rparr>)
               else if writers (pipes w ! p) = 0 then (Ret 0, w)
               else if nb then (Ret (- 1), sys_fail EAGAIN w)
               else (Hang, w)
           | _ \<Rightarrow> (Ret (- 1), sys_fail EBADF w)))"

text \<open>
  \<open>write(fd, buffer, count)\<close> on the write end of a pipe or FIFO, for \<open>count\<close> within the
  atomic size: all bytes are stored when they fit; otherwise the call reports \<open>EAGAIN\<close>
  on a non-blocking descriptor and waits on a blocking one. Without a reader it fails
  with \<open>EPIPE\<close>.
\<close>

definition sys_write :: "int \<Rightarrow> nat \<Rightarrow> world \<Rightarrow> sysret \<times> world" where
  "sys_write fd count w0 =
     (case sys_enter (EvWrite fd count) w0 of
        (Some e, w) \<Rightarrow> (Ret (- 1), sys_fail e w)
      | (None, w) \<Rightarrow>
          (case fd_lookup w fd of
             Some (OpenFile (PipeWriteEnd p) nb) \<Rightarrow>
               if \<not> p < length (pipes w) then (Ret (- 1), sys_fail EBADF w)
               else if readers (pipes w ! p) = 0 then (Ret (- 1), sys_fail EPIPE w)
               else if buffered (pipes w ! p) + count \<le> capacity (pipes w ! p) then
                 (Ret (int count),
                  w\<lparr>pipes := (pipes w)
                       [p := (pipes w ! p)\<lparr>buffered := buffered (pipes w ! p) + count\<rparr>]\<rparr>)
               else if nb then (Ret (- 1), sys_fail EAGAIN w)
               else (Hang, w)
           | _ \<Rightarrow> (Ret (- 1), sys_fail EBADF w)))"

text \<open>
  \<open>eventfd(initval, flags)\<close>: a new 64-bit counter; the descriptor is non-blocking only
  when \<open>EFD_NONBLOCK\<close> is among the flags.
\<close>

definition sys_eventfd :: "32 word \<Rightarrow> efd_flag set \<Rightarrow> world \<Rightarrow> int \<times> world" where
  "sys_eventfd initval flags w0 =
     (case sys_enter EvEventfd w0 of
        (Some e, w) \<Rightarrow> (- 1, sys_fail e w)
      | (None, w) \<Rightarrow>
          (case first_free (fdtab w) of
             None \<Rightarrow> (- 1, sys_fail EMFILE w)
           | Some fd \<Rightarrow>
               (int fd,
                w\<lparr>fdtab := (fdtab w)
                     [fd := Some (OpenFile (EventCounter (length (counters w)))
                                    (EFD_NONBLOCK \<in> flags))],
                  counters := counters w @ [ucast initval]\<rparr>)))"

text \<open>
  Reading an event counter (an 8-byte \<open>read\<close>, or \<open>eventfd_read\<close>): a non-zero counter is
  fetched and reset to 0 in one step; on a zero counter the call reports \<open>EAGAIN\<close> on a
  non-blocking descriptor and waits on a blocking one. The result is the outcome, the
  value fetched and the state; \<open>ok\<close> is the success return value (8 for \<open>read\<close>, 0 for
  \<open>eventfd_read\<close>).
\<close>

definition eventfd_fetch :: "int \<Rightarrow> int \<Rightarrow> world \<Rightarrow> (sysret \<times> 64 word) \<times> world" where
  "eventfd_fetch ok fd w0 =
     (case sys_enter (EvRead fd 8) w0 of
        (Some e, w) \<Rightarrow> ((Ret (- 1), 0), sys_fail e w)
      | (None, w) \<Rightarrow>
          (case fd_lookup w fd of
             Some (OpenFile (EventCounter c) nb) \<Rightarrow>
               if \<not> c < length (counters w) then ((Ret (- 1), 0), sys_fail EBADF w)
               else if counters w ! c \<noteq> 0 then
                 ((Ret ok, counters w ! c), w\<lparr>counters := (counters w)[c := 0]\<rparr>)
               else if nb then ((Ret (- 1), 0), sys_fail EAGAIN w)
               else ((Hang, 0), w)
           | _ \<Rightarrow> ((Ret (- 1), 0), sys_fail EINVAL w)))"

text \<open>
  Adding to an event counter (an 8-byte \<open>write\<close>, or \<open>eventfd_write\<close>): the counter may not
  pass \<open>0xfffffffffffffffe\<close>; an addition that would pass it reports \<open>EAGAIN\<close> on a
  non-blocking descriptor and waits on a blocking one.
\<close>

definition eventfd_add :: "int \<Rightarrow> int \<Rightarrow> 64 word \<Rightarrow> world \<Rightarrow> sysret \<times> world" where
  "eventfd_add ok fd v w0 =
     (case sys_enter (EvWrite fd 8) w0 of
        (Some e, w) \<Rightarrow> (Ret (- 1), sys_fail e w)
      | (None, w) \<Rightarrow>
          (case fd_lookup w fd of
             Some (OpenFile (EventCounter c) nb) \<Rightarrow>
               if \<not> c < length (counters w) then (Ret (- 1), sys_fail EBADF w)
               else if v = - 1 then (Ret (- 1), sys_fail EINVAL w)
               else if unat (counters w ! c) + unat v \<le> 2 ^ 64 - 2 then
                 (Ret ok, w\<lparr>counters := (counters w)[c := counters w ! c + v]\<rparr>)
               else if nb then (Ret (- 1), sys_fail EAGAIN w)
               else (Hang, w)
           | _ \<Rightarrow> (Ret (- 1), sys_fail EINVAL w)))"

text \<open>
  A zero-timeout readiness check for input (\<open>poll\<close> with \<open>POLLIN\<close>): level-triggered, true
  exactly while unread signal data is there. It observes only.
\<close>

definition poll_in :: "int \<Rightarrow> world \<Rightarrow> bool" where
  "poll_in fd w =
     (case fd_lookup w fd of
        Some (OpenFile (PipeReadEnd p) nb) \<Rightarrow> p < length (pipes w) \<and> 0 < buffered (pipes w ! p)
      | Some (OpenFile (EventCounter c) nb) \<Rightarrow> c < length (counters w) \<and> counters w ! c \<noteq> 0
      | _ \<Rightarrow> False)"

section \<open>The socket multiplexer\<close>

text \<open>
  Modelled from the spec: the four operations of \<open>LayerSockets\<close> that \<open>WakeEvent.cpp\<close> calls
  (\<open>StartWatchingSocket\<close>, \<open>SetCallback\<close>, \<open>RequestCallbackOnPendingRead\<close>,
  \<open>StopWatchingSocket\<close>) are not in the two source files. Per the spec a watch is a
  registration of one descriptor, obtained by \<open>StartWatchingSocket\<close>, armed by the next two
  calls and released by \<open>StopWatchingSocket\<close>, which also invalidates the token it is
  handed by reference. Registration can fail with an OS failure, here by the fault
  script; the spec names no failure of \<open>StopWatchingSocket\<close>.
\<close>

definition StartWatchingSocket ::
  "int \<Rightarrow> nat option \<Rightarrow> world \<Rightarrow> (CHIP_ERROR \<times> nat option) \<times> world" where
  "StartWatchingSocket fd tokenOut w0 =
     (case sys_enter (EvStartWatchingSocket fd) w0 of
        (Some e, w) \<Rightarrow> ((CHIP_ERROR_POSIX e, tokenOut), w)
      | (None, w) \<Rightarrow>
          (case first_free (watches w) of
             Some t \<Rightarrow>
               ((CHIP_NO_ERROR, Some t),
                w\<lparr>watches := (watches w)
                     [t := Some \<lparr>watch_fd = fd, watch_callback = False, watch_pending_read = False\<rparr>]\<rparr>)
           | None \<Rightarrow>
               ((CHIP_NO_ERROR, Some (length (watches w))),
                w\<lparr>watches := watches w @
                     [Some \<lparr>watch_fd = fd, watch_callback = False, watch_pending_read = False\<rparr>]\<rparr>)))"

definition update_watch :: "nat option \<Rightarrow> (watch \<Rightarrow> watch) \<Rightarrow> watch option list \<Rightarrow> watch option list" where
  "update_watch token f ws =
     (case token of
        None \<Rightarrow> ws
      | Some t \<Rightarrow> if t < length ws then ws[t := map_option f (ws ! t)] else ws)"

definition SetCallback :: "nat option \<Rightarrow> world \<Rightarrow> CHIP_ERROR \<times> world" where
  "SetCallback token w0 =
     (case sys_enter (EvSetCallback token) w0 of
        (Some e, w) \<Rightarrow> (CHIP_ERROR_POSIX e, w)
      | (None, w) \<Rightarrow>
          (CHIP_NO_ERROR,
           w\<lparr>watches := update_watch token (\<lambda>x. x\<lparr>watch_callback := True\<rparr>) (watches w)\<rparr>))"

definition RequestCallbackOnPendingRead :: "nat option \<Rightarrow> world \<Rightarrow> CHIP_ERROR \<times> world" where
  "RequestCallbackOnPendingRead token w0 =
     (case sys_enter (EvRequestCallbackOnPendingRead token) w0 of
        (Some e, w) \<Rightarrow> (CHIP_ERROR_POSIX e, w)
      | (None, w) \<Rightarrow>
          (CHIP_NO_ERROR,
           w\<lparr>watches := update_watch token (\<lambda>x. x\<lparr>watch_pending_read := True\<rparr>) (watches w)\<rparr>))"

definition StopWatchingSocket :: "nat option \<Rightarrow> world \<Rightarrow> nat option \<times> world" where
  "StopWatchingSocket tokenInOut w =
     (None,
      w\<lparr>trace := trace w @ [EvStopWatchingSocket tokenInOut],
        watches := (case tokenInOut of None \<Rightarrow> watches w | Some t \<Rightarrow> (watches w)[t := None])\<rparr>)"

text \<open>The watch behind a token, if it is registered.\<close>

definition watch_of :: "world \<Rightarrow> nat option \<Rightarrow> watch option" where
  "watch_of w token =
     (case token of
        None \<Rightarrow> None
      | Some t \<Rightarrow> if t < length (watches w) then watches w ! t else None)"

section \<open>WakeEvent.cpp\<close>

text \<open>
  A call of a \<open>WakeEvent\<close> member returns a value, waits in a system call that does not
  return (\<open>Blocks\<close>), or ends the process in \<open>VerifyOrDie\<close> (\<open>Aborts\<close>). Each member is a
  function from the state to its outcome and the state it leaves.
\<close>

datatype 'a outcome = Returns 'a | Blocks | Aborts

definition kChipEventFifoPath :: string where
  "kChipEventFifoPath = ''/var/wake_event_fifo''"

definition ChipLogError :: "string \<Rightarrow> world \<Rightarrow> world" where
  "ChipLogError msg w = w\<lparr>chip_log := chip_log w @ [msg]\<rparr>"

definition SetNonBlockingMode :: "int \<Rightarrow> world \<Rightarrow> int \<times> world" where
  "SetNonBlockingMode fd w0 =
     (case sys_fcntl_getfl fd w0 of
        (flags, w1) \<Rightarrow> sys_fcntl_setfl fd (flags \<union> {O_NONBLOCK}) w1)"

text \<open>
  The last three statements of both variants of \<open>Open\<close>: the read descriptor is
  registered with the multiplexer, \<open>Confirm\<close> is set as its callback, and a callback on
  pending read is requested; the first failure is returned.
\<close>

definition WatchReadFD :: "world \<Rightarrow> CHIP_ERROR outcome \<times> world" where
  "WatchReadFD w0 =
     (case StartWatchingSocket (mReadFD (wake w0)) (mReadWatch (wake w0)) w0 of
        ((err1, token), w1) \<Rightarrow>
          if err1 \<noteq> CHIP_NO_ERROR
          then (Returns err1, w1\<lparr>wake := (wake w1)\<lparr>mReadWatch := token\<rparr>\<rparr>)
          else
            (case SetCallback token (w1\<lparr>wake := (wake w1)\<lparr>mReadWatch := token\<rparr>\<rparr>) of
               (err2, w2) \<Rightarrow>
                 if err2 \<noteq> CHIP_NO_ERROR then (Returns err2, w2)
                 else
                   (case RequestCallbackOnPendingRead (mReadWatch (wake w2)) w2 of
                      (err3, w3) \<Rightarrow>
                        if err3 \<noteq> CHIP_NO_ERROR then (Returns err3, w3)
                        else (Returns CHIP_NO_ERROR, w3))))"

subsection \<open>The pipe and FIFO variant (\<open>CHIP_SYSTEM_CONFIG_USE_POSIX_PIPE\<close>)\<close>

text \<open>
  The first half of \<open>Open\<close>, up to the assignment of \<open>fds\<close> to the members, in its two
  builds: with \<open>CHIP_SYSTEM_CONFIG_WAKE_EVENT_USE_FIFO\<close> and without. The result is an
  early return of \<open>Open\<close> (left) or the two descriptors (right).
\<close>

definition OpenFifoPair :: "world \<Rightarrow> (CHIP_ERROR outcome + int \<times> int) \<times> world" where
  "OpenFifoPair w0 =
     (case sys_mkfifo kChipEventFifoPath w0 of
        (r, w1) \<Rightarrow>
          if \<not> (r = 0 \<or> cur_errno w1 = EEXIST) then (Inl (Returns CHIP_ERROR_OPEN_FAILED), w1)
          else
            (case sys_open kChipEventFifoPath {O_RDONLY, O_NONBLOCK} w1 of
               (Hang, w2) \<Rightarrow> (Inl Blocks, w2)
             | (Ret fd_read, w2) \<Rightarrow>
                 if fd_read = - 1
                 then (Inl (Returns (CHIP_ERROR_POSIX (cur_errno w2))),
                       ChipLogError ''System wake event failed to open fifo'' w2)
                 else
                   (case sys_open kChipEventFifoPath {O_WRONLY, O_NONBLOCK} w2 of
                      (Hang, w3) \<Rightarrow> (Inl Blocks, w3)
                    | (Ret fd_write, w3) \<Rightarrow>
                        if fd_write = - 1
                        then (Inl (Returns (CHIP_ERROR_POSIX (cur_errno w3))),
                              ChipLogError ''System wake event failed to open fifo'' w3)
                        else (Inr (fd_read, fd_write), w3))))"

definition OpenPipePair :: "world \<Rightarrow> (CHIP_ERROR outcome + int \<times> int) \<times> world" where
  "OpenPipePair w0 =
     (case sys_pipe w0 of
        ((r, fd_read, fd_write), w1) \<Rightarrow>
          if r < 0 then (Inl (Returns (CHIP_ERROR_POSIX (cur_errno w1))), w1)
          else
            (case SetNonBlockingMode fd_read w1 of
               (r2, w2) \<Rightarrow>
                 if r2 < 0 then (Inl (Returns (CHIP_ERROR_POSIX (cur_errno w2))), w2)
                 else
                   (case SetNonBlockingMode fd_write w2 of
                      (r3, w3) \<Rightarrow>
                        if r3 < 0 then (Inl (Returns (CHIP_ERROR_POSIX (cur_errno w3))), w3)
                        else (Inr (fd_read, fd_write), w3))))"

definition Open_pipe :: "bool \<Rightarrow> world \<Rightarrow> CHIP_ERROR outcome \<times> world" where
  "Open_pipe use_fifo w0 =
     (case (if use_fifo then OpenFifoPair w0 else OpenPipePair w0) of
        (Inl early, w) \<Rightarrow> (early, w)
      | (Inr (fd_read, fd_write), w) \<Rightarrow>
          WatchReadFD (w\<lparr>wake := (wake w)\<lparr>mReadFD := fd_read, mWriteFD := fd_write\<rparr>\<rparr>))"

definition Close_pipe :: "world \<Rightarrow> unit outcome \<times> world" where
  "Close_pipe w0 =
     (case StopWatchingSocket (mReadWatch (wake w0)) w0 of
        (token, w1') \<Rightarrow>
          (case sys_close (mReadFD (wake w1')) (w1'\<lparr>wake := (wake w1')\<lparr>mReadWatch := token\<rparr>\<rparr>) of
             (r1, w2) \<Rightarrow>
               if \<not> r1 = 0 then (Aborts, w2)
               else
                 (case sys_close (mWriteFD (wake w2)) w2 of
                    (r2, w3) \<Rightarrow>
                      if \<not> r2 = 0 then (Aborts, w3)
                      else (Returns (), w3\<lparr>wake := (wake w3)\<lparr>mReadFD := - 1, mWriteFD := - 1\<rparr>\<rparr>))))"

text \<open>
  How many bytes are buffered behind a descriptor that is the read end of a pipe (0 for
  any other descriptor): what the loop of \<open>Confirm\<close> consumes, and its measure.
\<close>

definition pending :: "int \<Rightarrow> world \<Rightarrow> nat" where
  "pending fd w =
     (case fd_lookup w fd of
        Some (OpenFile (PipeReadEnd p) nb) \<Rightarrow> if p < length (pipes w) then buffered (pipes w ! p) else 0
      | _ \<Rightarrow> 0)"

lemma sys_enter_fields:
  "sys_enter e w = (f, w') \<Longrightarrow>
     fdtab w' = fdtab w \<and> pipes w' = pipes w \<and> counters w' = counters w \<and> fifos w' = fifos w
     \<and> pipe_size w' = pipe_size w \<and> cur_errno w' = cur_errno w \<and> watches w' = watches w
     \<and> chip_log w' = chip_log w \<and> wake w' = wake w \<and> trace w' = trace w @ [e]"
  by (auto simp: sys_enter_def split: list.splits)

lemma sys_enter_lookup: "sys_enter e w = (f, w') \<Longrightarrow> fd_lookup w' fd = fd_lookup w fd"
  by (auto simp: sys_enter_def fd_lookup_def split: list.splits)

lemma sys_read_full_shrinks:
  assumes "sys_read fd 128 w = (Ret 128, w')"
  shows "pending fd w' < pending fd w \<and> wake w' = wake w"
proof -
  obtain f w1 where enter: "sys_enter (EvRead fd 128) w = (f, w1)"
    by (cases "sys_enter (EvRead fd 128) w") auto
  note fields = sys_enter_fields [OF enter] and look = sys_enter_lookup [OF enter]
  from assms enter look [of fd] fields show ?thesis
    by (auto simp: sys_read_def sys_fail_def pending_def fd_lookup_def
        split: option.splits open_file.splits vnode.splits if_splits)
qed

text \<open>
  \<open>Confirm\<close>: the \<open>do ... while (res == sizeof(buffer))\<close> loop over a 128-byte buffer. A
  read that fills the buffer took 128 bytes out of the pipe, so the loop ends.
\<close>

function Confirm_pipe :: "world \<Rightarrow> unit outcome \<times> world" where
  "Confirm_pipe w0 =
     (case sys_read (mReadFD (wake w0)) 128 w0 of
        (Hang, w1) \<Rightarrow> (Blocks, w1)
      | (Ret res, w1) \<Rightarrow>
          if res < 0 \<and> cur_errno w1 \<noteq> EAGAIN \<and> cur_errno w1 \<noteq> EWOULDBLOCK
          then (Returns (), ChipLogError ''System wake event confirm failed'' w1)
          else if res = 128 then Confirm_pipe w1
          else (Returns (), w1))"
  by pat_completeness auto
termination
proof (relation "measure (\<lambda>w. pending (mReadFD (wake w)) w)")
  show "wf (measure (\<lambda>w. pending (mReadFD (wake w)) w))"
    by simp
next
  fix w0 :: world and x :: sysret and w1 :: world and res :: int
  assume "(x, w1) = sys_read (mReadFD (wake w0)) 128 w0" and "x = Ret res"
    and "\<not> (res < 0 \<and> cur_errno w1 \<noteq> EAGAIN \<and> cur_errno w1 \<noteq> EWOULDBLOCK)"
    and "res = 128"
  then have "sys_read (mReadFD (wake w0)) 128 w0 = (Ret 128, w1)"
    by simp
  from sys_read_full_shrinks [OF this]
  show "(w1, w0) \<in> measure (\<lambda>w. pending (mReadFD (wake w)) w)"
    by simp
qed

declare Confirm_pipe.simps [simp del]

text \<open>
  \<open>Notify\<close>: one byte is written to \<open>mWriteFD\<close>. Only the FIFO build has the second half:
  a writer opened on the FIFO path without \<open>O_NONBLOCK\<close>, one more write, and \<open>close\<close>.
\<close>

definition Notify_pipe :: "bool \<Rightarrow> world \<Rightarrow> CHIP_ERROR outcome \<times> world" where
  "Notify_pipe use_fifo w0 =
     (case sys_write (mWriteFD (wake w0)) 1 w0 of
        (Hang, w1) \<Rightarrow> (Blocks, w1)
      | (Ret r, w1) \<Rightarrow>
          if r < 0 \<and> cur_errno w1 \<noteq> EAGAIN \<and> cur_errno w1 \<noteq> EWOULDBLOCK then
            (if use_fifo then
               (case sys_open kChipEventFifoPath {O_WRONLY} w1 of
                  (Hang, w2) \<Rightarrow> (Blocks, w2)
                | (Ret WriteFD, w2) \<Rightarrow>
                    if WriteFD = - 1
                    then (Returns (CHIP_ERROR_POSIX (cur_errno w2)),
                          ChipLogError ''Notify event failed to open fifo'' w2)
                    else
                      (case sys_write WriteFD 1 w2 of
                         (Hang, w3) \<Rightarrow> (Blocks, w3)
                       | (Ret r2, w3) \<Rightarrow>
                           if r2 < 0 then
                             (case sys_close WriteFD w3 of
                                (rc, w4) \<Rightarrow>
                                  (Returns (CHIP_ERROR_POSIX (cur_errno w4)),
                                   ChipLogError ''Failed to notify event by fifo'' w4))
                           else
                             (case sys_close WriteFD w3 of
                                (rc, w4) \<Rightarrow> (Returns CHIP_NO_ERROR, w4))))
             else (Returns (CHIP_ERROR_POSIX (cur_errno w1)), w1))
          else (Returns CHIP_NO_ERROR, w1))"

subsection \<open>The eventfd variant\<close>

text \<open>
  \<open>ReadEvent\<close> and \<open>WriteEvent\<close> in their two builds: \<open>eventfd_read\<close> and \<open>eventfd_write\<close>
  (\<open>CHIP_SYSTEM_CONFIG_USE_ZEPHYR_EVENTFD\<close>, returning 0) or an 8-byte \<open>read\<close> and \<open>write\<close>
  (returning 8). The value read is dropped.
\<close>

definition ReadEvent :: "bool \<Rightarrow> int \<Rightarrow> world \<Rightarrow> sysret \<times> world" where
  "ReadEvent zephyr eventFd w0 =
     (case eventfd_fetch (if zephyr then 0 else 8) eventFd w0 of
        ((r, fetched), w1) \<Rightarrow> (r, w1))"

definition WriteEvent :: "bool \<Rightarrow> int \<Rightarrow> world \<Rightarrow> sysret \<times> world" where
  "WriteEvent zephyr eventFd w0 = eventfd_add (if zephyr then 0 else 8) eventFd 1 w0"

definition Open_eventfd :: "world \<Rightarrow> CHIP_ERROR outcome \<times> world" where
  "Open_eventfd w0 =
     (case sys_eventfd 0 {} w0 of
        (fd, w1) \<Rightarrow>
          if fd = - 1
          then (Returns (CHIP_ERROR_POSIX (cur_errno w1)), w1\<lparr>wake := (wake w1)\<lparr>mReadFD := fd\<rparr>\<rparr>)
          else WatchReadFD (w1\<lparr>wake := (wake w1)\<lparr>mReadFD := fd\<rparr>\<rparr>))"

definition Close_eventfd :: "world \<Rightarrow> unit outcome \<times> world" where
  "Close_eventfd w0 =
     (case StopWatchingSocket (mReadWatch (wake w0)) w0 of
        (token, w1') \<Rightarrow>
          (case sys_close (mReadFD (wake w1')) (w1'\<lparr>wake := (wake w1')\<lparr>mReadWatch := token\<rparr>\<rparr>) of
             (r1, w2) \<Rightarrow>
               if \<not> r1 = 0 then (Aborts, w2)
               else (Returns (), w2\<lparr>wake := (wake w2)\<lparr>mReadFD := - 1\<rparr>\<rparr>)))"

definition Confirm_eventfd :: "bool \<Rightarrow> world \<Rightarrow> unit outcome \<times> world" where
  "Confirm_eventfd zephyr w0 =
     (case ReadEvent zephyr (mReadFD (wake w0)) w0 of
        (Hang, w1) \<Rightarrow> (Blocks, w1)
      | (Ret r, w1) \<Rightarrow>
          if r < 0 \<and> cur_errno w1 \<noteq> EAGAIN \<and> cur_errno w1 \<noteq> EWOULDBLOCK
          then (Returns (), ChipLogError ''System wake event confirm failed'' w1)
          else (Returns (), w1))"

definition Notify_eventfd :: "bool \<Rightarrow> world \<Rightarrow> CHIP_ERROR outcome \<times> world" where
  "Notify_eventfd zephyr w0 =
     (case WriteEvent zephyr (mReadFD (wake w0)) w0 of
        (Hang, w1) \<Rightarrow> (Blocks, w1)
      | (Ret r, w1) \<Rightarrow>
          if r < 0 \<and> cur_errno w1 \<noteq> EAGAIN \<and> cur_errno w1 \<noteq> EWOULDBLOCK
          then (Returns (CHIP_ERROR_POSIX (cur_errno w1)), w1)
          else (Returns CHIP_NO_ERROR, w1))"

subsection \<open>The four builds behind one interface\<close>

datatype backend = Pipe | NamedFifo | EventFd | ZephyrEventFd

definition Open :: "backend \<Rightarrow> world \<Rightarrow> CHIP_ERROR outcome \<times> world" where
  "Open b w =
     (case b of Pipe \<Rightarrow> Open_pipe False w | NamedFifo \<Rightarrow> Open_pipe True w
        | EventFd \<Rightarrow> Open_eventfd w | ZephyrEventFd \<Rightarrow> Open_eventfd w)"

definition Close :: "backend \<Rightarrow> world \<Rightarrow> unit outcome \<times> world" where
  "Close b w =
     (case b of Pipe \<Rightarrow> Close_pipe w | NamedFifo \<Rightarrow> Close_pipe w
        | EventFd \<Rightarrow> Close_eventfd w | ZephyrEventFd \<Rightarrow> Close_eventfd w)"

definition Confirm :: "backend \<Rightarrow> world \<Rightarrow> unit outcome \<times> world" where
  "Confirm b w =
     (case b of Pipe \<Rightarrow> Confirm_pipe w | NamedFifo \<Rightarrow> Confirm_pipe w
        | EventFd \<Rightarrow> Confirm_eventfd False w | ZephyrEventFd \<Rightarrow> Confirm_eventfd True w)"

definition Notify :: "backend \<Rightarrow> world \<Rightarrow> CHIP_ERROR outcome \<times> world" where
  "Notify b w =
     (case b of Pipe \<Rightarrow> Notify_pipe False w | NamedFifo \<Rightarrow> Notify_pipe True w
        | EventFd \<Rightarrow> Notify_eventfd False w | ZephyrEventFd \<Rightarrow> Notify_eventfd True w)"

text \<open>The descriptor the multiplexer watches, and its zero-timeout readiness.\<close>

definition readable :: "world \<Rightarrow> bool" where
  "readable w = poll_in (mReadFD (wake w)) w"

section \<open>Scenarios and invariants of the wake channel\<close>

text \<open>
  A state is well formed when pipes have room for at least one byte: new ones by
  \<open>pipe_size\<close>, the ones already there by their capacity.
\<close>

definition wf_world :: "world \<Rightarrow> bool" where
  "wf_world w = (0 < pipe_size w \<and> (\<forall>q \<in> set (pipes w). 0 < capacity q))"

text \<open>
  What a successful \<open>Open\<close> leaves behind. In the pipe and FIFO builds: \<open>mReadFD\<close> and
  \<open>mWriteFD\<close> are the non-blocking read and write end of one pipe that has a reader and
  room for a byte. In the eventfd builds: \<open>mReadFD\<close> is a blocking descriptor of an event
  counter (\<open>eventfd(0, 0)\<close> passes no \<open>EFD_NONBLOCK\<close>).
\<close>

definition pipe_opened :: "world \<Rightarrow> bool" where
  "pipe_opened w =
     (case fd_lookup w (mReadFD (wake w)) of
        Some (OpenFile (PipeReadEnd p) True) \<Rightarrow>
          fd_lookup w (mWriteFD (wake w)) = Some (OpenFile (PipeWriteEnd p) True)
          \<and> p < length (pipes w) \<and> 0 < readers (pipes w ! p) \<and> 0 < capacity (pipes w ! p)
      | _ \<Rightarrow> False)"

definition event_opened :: "world \<Rightarrow> bool" where
  "event_opened w =
     (case fd_lookup w (mReadFD (wake w)) of
        Some (OpenFile (EventCounter c) False) \<Rightarrow> c < length (counters w)
      | _ \<Rightarrow> False)"

definition opened :: "backend \<Rightarrow> world \<Rightarrow> bool" where
  "opened b w =
     (case b of Pipe \<Rightarrow> pipe_opened w | NamedFifo \<Rightarrow> pipe_opened w
        | EventFd \<Rightarrow> event_opened w | ZephyrEventFd \<Rightarrow> event_opened w)"

text \<open>The value of the event counter behind \<open>mReadFD\<close>.\<close>

definition wake_counter :: "world \<Rightarrow> 64 word option" where
  "wake_counter w =
     (case fd_lookup w (mReadFD (wake w)) of
        Some (OpenFile (EventCounter c) nb) \<Rightarrow>
          if c < length (counters w) then Some (counters w ! c) else None
      | _ \<Rightarrow> None)"

text \<open>
  \<open>n\<close> calls of \<open>Notify\<close> in a row, each of which returned; \<open>None\<close> when one of them did
  not return.
\<close>

fun notify_n :: "backend \<Rightarrow> nat \<Rightarrow> world \<Rightarrow> world option" where
  "notify_n b 0 w = Some w"
| "notify_n b (Suc n) w =
     (case Notify b w of
        (Returns r, w') \<Rightarrow> notify_n b n w'
      | (Blocks, w') \<Rightarrow> None
      | (Aborts, w') \<Rightarrow> None)"

text \<open>
  The states a handle can be in after a successful \<open>Open\<close>: any number of returned
  \<open>Notify\<close> and \<open>Confirm\<close> calls later, with any fault script and \<open>errno\<close> the environment
  may have set in between.
\<close>

inductive reachable :: "backend \<Rightarrow> world \<Rightarrow> bool" for b :: backend where
  after_Open: "wf_world w0 \<Longrightarrow> Open b w0 = (Returns CHIP_NO_ERROR, w) \<Longrightarrow> reachable b w"
| after_Notify: "reachable b w \<Longrightarrow> Notify b w = (Returns r, w') \<Longrightarrow> reachable b w'"
| after_Confirm: "reachable b w \<Longrightarrow> Confirm b w = (Returns (), w') \<Longrightarrow> reachable b w'"
| environment: "reachable b w \<Longrightarrow> reachable b (w\<lparr>faults := fs, cur_errno := e\<rparr>)"

text \<open>
  The write \<open>Notify\<close> starts with: one byte to \<open>mWriteFD\<close>, or \<open>WriteEvent\<close> on \<open>mReadFD\<close>.
\<close>

definition first_write :: "backend \<Rightarrow> world \<Rightarrow> sysret \<times> world" where
  "first_write b w =
     (case b of
        Pipe \<Rightarrow> sys_write (mWriteFD (wake w)) 1 w
      | NamedFifo \<Rightarrow> sys_write (mWriteFD (wake w)) 1 w
      | EventFd \<Rightarrow> WriteEvent False (mReadFD (wake w)) w
      | ZephyrEventFd \<Rightarrow> WriteEvent True (mReadFD (wake w)) w)"

text \<open>
  An example state to run the code on: a process with four free descriptor slots, no
  pipe, no FIFO, no event counter, pipes of two bytes, and no fault to come.
\<close>

definition boot :: world where
  "boot =
     \<lparr>fdtab = [None, None, None, None], pipes = [], counters = [], fifos = [], pipe_size = 2,
      cur_errno = EINVAL, faults = [], watches = [], trace = [], chip_log = [],
      wake = \<lparr>mReadFD = - 1, mWriteFD = - 1, mReadWatch = None\<rparr>\<rparr>"


text \<open>
  Four more example states, all reached from \<open>boot\<close> by the code itself: a pipe filled
  to its two bytes by two calls of \<open>Notify\<close>; a FIFO handle whose next system call will
  fail with \<open>EBADF\<close>; that FIFO handle with the FIFO filled first; and a FIFO handle
  whose next system call will fail with \<open>EBADF\<close> and the third one from now with \<open>EAGAIN\<close>.
\<close>

definition full_pipe :: world where
  "full_pipe = snd (Notify Pipe (snd (Notify Pipe (snd (Open Pipe boot)))))"

definition fifo_fault :: world where
  "fifo_fault = (snd (Open NamedFifo boot))\<lparr>faults := [Some EBADF]\<rparr>"

definition full_fifo_fault :: world where
  "full_fifo_fault =
     (snd (Notify NamedFifo (snd (Notify NamedFifo (snd (Open NamedFifo boot))))))
       \<lparr>faults := [Some EBADF]\<rparr>"


text \<open>
  What a call must keep for the handle to stay opened: the fields of the handle, what
  its two descriptors stand for, and of every pipe and counter its presence, and of every
  pipe its number of readers and its capacity.
\<close>

definition keeps_channel :: "world \<Rightarrow> world \<Rightarrow> bool" where
  "keeps_channel w w' =
     (wake w' = wake w
      \<and> fd_lookup w' (mReadFD (wake w)) = fd_lookup w (mReadFD (wake w))
      \<and> fd_lookup w' (mWriteFD (wake w)) = fd_lookup w (mWriteFD (wake w))
      \<and> length (pipes w') = length (pipes w)
      \<and> length (counters w') = length (counters w)
      \<and> (\<forall>q < length (pipes w).
            readers (pipes w' ! q) = readers (pipes w ! q)
            \<and> capacity (pipes w' ! q) = capacity (pipes w ! q)))"

text \<open>
  The write \<open>Notify\<close> starts with fails with an error other than would-block: the
  condition under which \<open>Notify\<close> does more than that one write.
\<close>

definition first_write_hard_fails :: "backend \<Rightarrow> world \<Rightarrow> bool" where
  "first_write_hard_fails b w =
     (case first_write b w of
        (Ret r, w1) \<Rightarrow> r < 0 \<and> cur_errno w1 \<noteq> EAGAIN \<and> cur_errno w1 \<noteq> EWOULDBLOCK
      | (Hang, w1) \<Rightarrow> False)"

section \<open>What every call leaves alone\<close>

lemma first_free_Some: "first_free xs = Some i \<Longrightarrow> i < length xs \<and> xs ! i = None"
  by (induction xs arbitrary: i rule: first_free.induct) auto

lemma sys_pipe_frame:
  "wake (snd (sys_pipe w)) = wake w \<and> watches (snd (sys_pipe w)) = watches w
   \<and> trace (snd (sys_pipe w)) = trace w @ [EvPipe]"
  by (auto simp: sys_pipe_def sys_enter_def sys_fail_def split: list.splits option.splits)

lemma sys_open_frame:
  "wake (snd (sys_open path flags w)) = wake w \<and> watches (snd (sys_open path flags w)) = watches w
   \<and> trace (snd (sys_open path flags w)) = trace w @ [EvOpen path flags]"
  by (auto simp: sys_open_def sys_enter_def sys_fail_def split: list.splits option.splits)

lemma sys_close_frame:
  "wake (snd (sys_close fd w)) = wake w \<and> watches (snd (sys_close fd w)) = watches w
   \<and> trace (snd (sys_close fd w)) = trace w @ [EvClose fd]"
  by (auto simp: sys_close_def sys_enter_def sys_fail_def split: list.splits option.splits)

lemma sys_read_frame:
  "wake (snd (sys_read fd n w)) = wake w \<and> watches (snd (sys_read fd n w)) = watches w
   \<and> trace (snd (sys_read fd n w)) = trace w @ [EvRead fd n]"
  by (auto simp: sys_read_def sys_enter_def sys_fail_def
      split: list.splits option.splits open_file.splits vnode.splits)

lemma sys_write_frame:
  "wake (snd (sys_write fd n w)) = wake w \<and> watches (snd (sys_write fd n w)) = watches w
   \<and> trace (snd (sys_write fd n w)) = trace w @ [EvWrite fd n]"
  by (auto simp: sys_write_def sys_enter_def sys_fail_def
      split: list.splits option.splits open_file.splits vnode.splits)

lemma eventfd_fetch_frame:
  "wake (snd (eventfd_fetch ok fd w)) = wake w \<and> watches (snd (eventfd_fetch ok fd w)) = watches w
   \<and> trace (snd (eventfd_fetch ok fd w)) = trace w @ [EvRead fd 8]"
  by (auto simp: eventfd_fetch_def sys_enter_def sys_fail_def
      split: list.splits option.splits open_file.splits vnode.splits)

lemma eventfd_add_frame:
  "wake (snd (eventfd_add ok fd v w)) = wake w \<and> watches (snd (eventfd_add ok fd v w)) = watches w
   \<and> trace (snd (eventfd_add ok fd v w)) = trace w @ [EvWrite fd 8]"
  by (auto simp: eventfd_add_def sys_enter_def sys_fail_def
      split: list.splits option.splits open_file.splits vnode.splits)

lemma sys_open_frameD:
  "sys_open path flags w = (r, w') \<Longrightarrow>
     wake w' = wake w \<and> watches w' = watches w \<and> trace w' = trace w @ [EvOpen path flags]"
  using sys_open_frame [of path flags w] by simp

lemma sys_close_frameD:
  "sys_close fd w = (r, w') \<Longrightarrow>
     wake w' = wake w \<and> watches w' = watches w \<and> trace w' = trace w @ [EvClose fd]"
  using sys_close_frame [of fd w] by simp

lemma sys_read_frameD:
  "sys_read fd n w = (r, w') \<Longrightarrow>
     wake w' = wake w \<and> watches w' = watches w \<and> trace w' = trace w @ [EvRead fd n]"
  using sys_read_frame [of fd n w] by simp

lemma sys_write_frameD:
  "sys_write fd n w = (r, w') \<Longrightarrow>
     wake w' = wake w \<and> watches w' = watches w \<and> trace w' = trace w @ [EvWrite fd n]"
  using sys_write_frame [of fd n w] by simp

lemma ReadEvent_frameD:
  "ReadEvent z fd w = (r, w') \<Longrightarrow>
     wake w' = wake w \<and> watches w' = watches w \<and> trace w' = trace w @ [EvRead fd 8]"
  using eventfd_fetch_frame [of "if z then 0 else 8" fd w]
  by (auto simp: ReadEvent_def split: prod.splits)

lemma WriteEvent_frameD:
  "WriteEvent z fd w = (r, w') \<Longrightarrow>
     wake w' = wake w \<and> watches w' = watches w \<and> trace w' = trace w @ [EvWrite fd 8]"
  using eventfd_add_frame [of "if z then 0 else 8" fd 1 w]
  by (simp add: WriteEvent_def)

lemma Notify_pipe_frame:
  "wake (snd (Notify_pipe uf w)) = wake w \<and> watches (snd (Notify_pipe uf w)) = watches w"
  by (auto simp: Notify_pipe_def ChipLogError_def split: prod.splits sysret.splits
      dest!: sys_write_frameD sys_open_frameD sys_close_frameD)

lemma Notify_eventfd_frame:
  "wake (snd (Notify_eventfd z w)) = wake w \<and> watches (snd (Notify_eventfd z w)) = watches w"
  by (auto simp: Notify_eventfd_def split: prod.splits sysret.splits dest!: WriteEvent_frameD)

lemma Confirm_eventfd_frame:
  "wake (snd (Confirm_eventfd z w)) = wake w \<and> watches (snd (Confirm_eventfd z w)) = watches w
   \<and> (fst (Confirm_eventfd z w) = Returns () \<or> fst (Confirm_eventfd z w) = Blocks)"
  by (auto simp: Confirm_eventfd_def ChipLogError_def split: prod.splits sysret.splits
      dest!: ReadEvent_frameD)

lemma Confirm_pipe_frame:
  "wake (snd (Confirm_pipe w)) = wake w \<and> watches (snd (Confirm_pipe w)) = watches w
   \<and> (fst (Confirm_pipe w) = Returns () \<or> fst (Confirm_pipe w) = Blocks)"
proof (induction w rule: Confirm_pipe.induct)
  case (1 w0)
  obtain x w1 where rd: "sys_read (mReadFD (wake w0)) 128 w0 = (x, w1)"
    by (cases "sys_read (mReadFD (wake w0)) 128 w0") auto
  note fr = sys_read_frameD [OF rd]
  show ?case
  proof (cases x)
    case Hang
    with rd fr show ?thesis
      by (subst (1 2 3 4) Confirm_pipe.simps) simp
  next
    case (Ret res)
    show ?thesis
    proof (cases "res < 0 \<and> cur_errno w1 \<noteq> EAGAIN \<and> cur_errno w1 \<noteq> EWOULDBLOCK")
      case True
      with rd fr Ret show ?thesis
        by (subst (1 2 3 4) Confirm_pipe.simps) (simp add: ChipLogError_def)
    next
      case hard: False
      show ?thesis
      proof (cases "res = 128")
        case True
        from "1.IH" [OF rd [symmetric] Ret hard True] fr
        have "wake (snd (Confirm_pipe w1)) = wake w0 \<and> watches (snd (Confirm_pipe w1)) = watches w0
           \<and> (fst (Confirm_pipe w1) = Returns () \<or> fst (Confirm_pipe w1) = Blocks)"
          by simp
        moreover have "Confirm_pipe w0 = Confirm_pipe w1"
          using rd Ret hard True by (subst Confirm_pipe.simps) simp
        ultimately show ?thesis
          by simp
      next
        case False
        with rd fr Ret hard show ?thesis
          by (subst (1 2 3 4) Confirm_pipe.simps) (auto simp: ChipLogError_def)
      qed
    qed
  qed
qed

lemma StopWatchingSocket_frame:
  "StopWatchingSocket token w = (t', w') \<Longrightarrow>
     t' = None \<and> wake w' = wake w \<and> fdtab w' = fdtab w \<and> faults w' = faults w
     \<and> trace w' = trace w @ [EvStopWatchingSocket token]
     \<and> watch_of w' token = None"
  by (auto simp: StopWatchingSocket_def watch_of_def split: option.splits)

lemma watch_of_same: "watches w' = watches w \<Longrightarrow> watch_of w' token = watch_of w token"
  by (cases token) (simp_all add: watch_of_def)

section \<open>Which errors a failed call can leave in errno\<close>

lemma fd_lookup_same: "fdtab w' = fdtab w \<Longrightarrow> fd_lookup w' fd = fd_lookup w fd"
  by (simp add: fd_lookup_def)





lemma sys_close_faults: "faults (snd (sys_close fd w)) = tl (faults w)"
  by (auto simp: sys_close_def sys_enter_def sys_fail_def split: list.splits option.splits)

lemma sys_write_fdtab: "fdtab (snd (sys_write fd n w)) = fdtab w"
  by (auto simp: sys_write_def sys_enter_def sys_fail_def
      split: list.splits option.splits open_file.splits vnode.splits)


lemma sys_open_fresh:
  assumes "sys_open path flags w = (Ret r, w')" and "r \<noteq> - 1"
  shows "fd_lookup w r = None \<and> (\<exists>t. fd_lookup w' r = Some (OpenFile t (O_NONBLOCK \<in> flags)))"
proof -
  obtain f w1 where enter: "sys_enter (EvOpen path flags) w = (f, w1)"
    by (cases "sys_enter (EvOpen path flags) w") auto
  note fields = sys_enter_fields [OF enter]
  from assms enter fields show ?thesis
    by (auto simp: sys_open_def sys_fail_def fd_lookup_def
        split: option.splits if_splits dest!: first_free_Some)
qed



lemma sys_close_closed: "fd_lookup (snd (sys_close fd w)) fd = None"
  by (auto simp: sys_close_def sys_enter_def sys_fail_def fd_lookup_def
      split: list.splits option.splits)



section \<open>Calls that keep the handle opened\<close>

lemma keeps_channel_refl: "keeps_channel w w"
  by (simp add: keeps_channel_def)

lemma keeps_channel_trans:
  "keeps_channel w w' \<Longrightarrow> keeps_channel w' w'' \<Longrightarrow> keeps_channel w w''"
  by (simp add: keeps_channel_def)

lemma keeps_pipe_opened: "keeps_channel w w' \<Longrightarrow> pipe_opened w \<Longrightarrow> pipe_opened w'"
  by (auto simp: keeps_channel_def pipe_opened_def
      split: option.splits open_file.splits vnode.splits bool.splits)

lemma keeps_event_opened: "keeps_channel w w' \<Longrightarrow> event_opened w \<Longrightarrow> event_opened w'"
  by (auto simp: keeps_channel_def event_opened_def
      split: option.splits open_file.splits vnode.splits bool.splits)

lemma keeps_opened: "keeps_channel w w' \<Longrightarrow> opened b w \<Longrightarrow> opened b w'"
  by (cases b) (auto simp: opened_def intro: keeps_pipe_opened keeps_event_opened)

lemma fd_lookup_upd:
  assumes "fdtab w' = (fdtab w)[i := x]"
  shows "fd_lookup w' fd = (if fd = int i \<and> i < length (fdtab w) then x else fd_lookup w fd)"
proof (cases "0 \<le> fd \<and> nat fd < length (fdtab w)")
  case True
  then have "nat fd = i \<longleftrightarrow> fd = int i"
    by auto
  with True assms show ?thesis
    by (auto simp: fd_lookup_def nth_list_update)
next
  case False
  with assms show ?thesis
    by (auto simp: fd_lookup_def)
qed

lemma pipe_update_shape:
  assumes "ps' = ps[p := x]"
    and "readers x = readers (ps ! p)" and "capacity x = capacity (ps ! p)"
  shows "length ps' = length ps
         \<and> readers (ps' ! q) = readers (ps ! q) \<and> capacity (ps' ! q) = capacity (ps ! q)"
proof (cases "p = q \<and> p < length ps")
  case True
  with assms show ?thesis by simp
next
  case False
  then have "ps' ! q = ps ! q"
    using assms(1) by (cases "p = q") (simp_all add: list_update_beyond)
  with assms(1) show ?thesis by simp
qed

lemma keeps_channelI:
  assumes "wake w' = wake w" and "fdtab w' = fdtab w"
    and "length (counters w') = length (counters w)"
    and "pipes w' = (pipes w)[p := x]"
    and "readers x = readers (pipes w ! p)"
    and "capacity x = capacity (pipes w ! p)"
  shows "keeps_channel w w'"
  using assms(1-3) pipe_update_shape [OF assms(4-6)] fd_lookup_same [OF assms(2)]
  by (simp add: keeps_channel_def)

lemma keeps_channelI0:
  assumes "wake w' = wake w" and "fdtab w' = fdtab w"
    and "length (counters w') = length (counters w)" and "pipes w' = pipes w"
  shows "keeps_channel w w'"
  using assms fd_lookup_same [OF assms(2)] by (simp add: keeps_channel_def)

lemma sys_write_fields:
  "sys_write fd n w = (x, w') \<Longrightarrow>
     fdtab w' = fdtab w \<and> counters w' = counters w \<and> wake w' = wake w
     \<and> (pipes w' = pipes w
        \<or> (\<exists>p. pipes w' = (pipes w)[p := (pipes w ! p)\<lparr>buffered := buffered (pipes w ! p) + n\<rparr>]))"
  by (auto simp: sys_write_def sys_enter_def sys_fail_def
      split: list.splits option.splits open_file.splits vnode.splits if_splits)

lemma sys_read_fields:
  "sys_read fd n w = (x, w') \<Longrightarrow>
     fdtab w' = fdtab w \<and> counters w' = counters w \<and> wake w' = wake w
     \<and> (pipes w' = pipes w
        \<or> (\<exists>p. pipes w' = (pipes w)
              [p := (pipes w ! p)\<lparr>buffered := buffered (pipes w ! p) - min n (buffered (pipes w ! p))\<rparr>]))"
  by (auto simp: sys_read_def sys_enter_def sys_fail_def
      split: list.splits option.splits open_file.splits vnode.splits if_splits)

lemma eventfd_fetch_fields:
  "eventfd_fetch ok fd w = (x, w') \<Longrightarrow>
     fdtab w' = fdtab w \<and> pipes w' = pipes w \<and> wake w' = wake w
     \<and> length (counters w') = length (counters w)"
  by (auto simp: eventfd_fetch_def sys_enter_def sys_fail_def
      split: list.splits option.splits open_file.splits vnode.splits if_splits)

lemma eventfd_add_fields:
  "eventfd_add ok fd v w = (x, w') \<Longrightarrow>
     fdtab w' = fdtab w \<and> pipes w' = pipes w \<and> wake w' = wake w
     \<and> length (counters w') = length (counters w)"
  by (auto simp: eventfd_add_def sys_enter_def sys_fail_def
      split: list.splits option.splits open_file.splits vnode.splits if_splits)

lemma sys_write_keeps: "sys_write fd n w = (x, w') \<Longrightarrow> keeps_channel w w'"
  using sys_write_fields [of fd n w x w']
  by (elim meta_impE conjE disjE exE) (auto intro: keeps_channelI0 keeps_channelI)

lemma sys_read_keeps: "sys_read fd n w = (x, w') \<Longrightarrow> keeps_channel w w'"
  using sys_read_fields [of fd n w x w']
  by (elim meta_impE conjE disjE exE) (auto intro: keeps_channelI0 keeps_channelI)

lemma ReadEvent_keeps: "ReadEvent z fd w = (x, w') \<Longrightarrow> keeps_channel w w'"
  by (auto simp: ReadEvent_def split: prod.splits dest!: eventfd_fetch_fields
      intro: keeps_channelI0)

lemma WriteEvent_keeps: "WriteEvent z fd w = (x, w') \<Longrightarrow> keeps_channel w w'"
  by (auto simp: WriteEvent_def dest!: eventfd_add_fields intro: keeps_channelI0)

lemma ChipLogError_keeps: "keeps_channel w (ChipLogError msg w)"
  by (simp add: ChipLogError_def keeps_channel_def fd_lookup_def)

lemma sys_open_fields:
  "sys_open path flags w = (x, w') \<Longrightarrow>
     wake w' = wake w \<and> counters w' = counters w \<and> fifos w' = fifos w
     \<and> pipe_size w' = pipe_size w
     \<and> ((fdtab w' = fdtab w \<and> pipes w' = pipes w \<and> (x = Hang \<or> x = Ret (- 1)))
        \<or> (\<exists>fd p. x = Ret (int fd) \<and> fd < length (fdtab w) \<and> fdtab w ! fd = None
              \<and> map_of (fifos w) path = Some p \<and> p < length (pipes w)
              \<and> fdtab w' = (fdtab w)
                   [fd := Some (OpenFile (if O_WRONLY \<in> flags then PipeWriteEnd p else PipeReadEnd p)
                                  (O_NONBLOCK \<in> flags))]
              \<and> pipes w' = (pipes w)
                   [p := (if O_WRONLY \<in> flags
                          then (pipes w ! p)\<lparr>writers := Suc (writers (pipes w ! p))\<rparr>
                          else (pipes w ! p)\<lparr>readers := Suc (readers (pipes w ! p))\<rparr>)]
              \<and> (O_WRONLY \<in> flags \<longrightarrow> 0 < readers (pipes w ! p))))"
proof -
  assume a: "sys_open path flags w = (x, w')"
  obtain f w1 where enter: "sys_enter (EvOpen path flags) w = (f, w1)"
    by (cases "sys_enter (EvOpen path flags) w") auto
  note fields = sys_enter_fields [OF enter]
  from a enter fields show ?thesis
    by (auto simp: sys_open_def sys_fail_def split: option.splits if_splits
        dest!: first_free_Some)
qed

lemma sys_close_fields:
  "sys_close fd w = (r, w') \<Longrightarrow>
     wake w' = wake w \<and> counters w' = counters w \<and> fifos w' = fifos w
     \<and> (case fd_lookup w fd of
          None \<Rightarrow> fdtab w' = fdtab w \<and> pipes w' = pipes w \<and> r = - 1
        | Some f \<Rightarrow> fdtab w' = (fdtab w)[nat fd := None]
                     \<and> pipes w' = release_end (target f) (pipes w))"
proof -
  assume a: "sys_close fd w = (r, w')"
  obtain f w1 where enter: "sys_enter (EvClose fd) w = (f, w1)"
    by (cases "sys_enter (EvClose fd) w") auto
  note fields = sys_enter_fields [OF enter] and look = sys_enter_lookup [OF enter, of fd]
  from a enter fields look show ?thesis
    by (auto simp: sys_close_def sys_fail_def split: option.splits)
qed


lemma lookup_open_ge0: "fd_lookup w fd = Some f \<Longrightarrow> 0 \<le> fd \<and> int (nat fd) = fd"
  by (auto simp: fd_lookup_def split: if_splits)

lemma sys_open_wronly_keeps:
  assumes "sys_open path flags w = (x, w')" and "O_WRONLY \<in> flags"
    and "fd_lookup w (mReadFD (wake w)) \<noteq> None" and "fd_lookup w (mWriteFD (wake w)) \<noteq> None"
  shows "keeps_channel w w'"
proof -
  note f = sys_open_fields [OF assms(1)]
  from f have wk: "wake w' = wake w" and c: "counters w' = counters w"
    by simp_all
  show ?thesis
  proof (cases "fdtab w' = fdtab w \<and> pipes w' = pipes w")
    case True
    with wk c show ?thesis
      by (auto intro: keeps_channelI0)
  next
    case False
    with f obtain fd p where free: "fd < length (fdtab w)" "fdtab w ! fd = None"
      and tab: "fdtab w' = (fdtab w)
                   [fd := Some (OpenFile (if O_WRONLY \<in> flags then PipeWriteEnd p else PipeReadEnd p)
                                  (O_NONBLOCK \<in> flags))]"
      and ps: "pipes w' = (pipes w)
                   [p := (if O_WRONLY \<in> flags
                          then (pipes w ! p)\<lparr>writers := Suc (writers (pipes w ! p))\<rparr>
                          else (pipes w ! p)\<lparr>readers := Suc (readers (pipes w ! p))\<rparr>)]"
      by blast
    from free have none: "fd_lookup w (int fd) = None"
      by (simp add: fd_lookup_def)
    from none assms(3) have r: "mReadFD (wake w) \<noteq> int fd" by auto
    from none assms(4) have wr: "mWriteFD (wake w) \<noteq> int fd" by auto
    from ps assms(2)
    have ps': "pipes w' = (pipes w)[p := (pipes w ! p)\<lparr>writers := Suc (writers (pipes w ! p))\<rparr>]"
      by simp
    from pipe_update_shape [OF ps'] wk c r wr fd_lookup_upd [OF tab] show ?thesis
      by (simp add: keeps_channel_def)
  qed
qed

lemma sys_close_writer_keeps:
  assumes "sys_close fd w = (r, w')"
    and "fd \<noteq> mReadFD (wake w)" and "fd \<noteq> mWriteFD (wake w)"
    and "fd_lookup w fd = Some (OpenFile (PipeWriteEnd p) nb)"
  shows "keeps_channel w w'"
proof -
  from sys_close_fields [OF assms(1)] assms(4)
  have wk: "wake w' = wake w" and c: "counters w' = counters w"
    and tab: "fdtab w' = (fdtab w)[nat fd := None]"
    and ps: "pipes w' = (pipes w)[p := (pipes w ! p)\<lparr>writers := writers (pipes w ! p) - 1\<rparr>]"
    by (simp_all add: release_end_def)
  from lookup_open_ge0 [OF assms(4)] have "int (nat fd) = fd" by simp
  with pipe_update_shape [OF ps] wk c assms(2,3) fd_lookup_upd [OF tab] show ?thesis
    by (simp add: keeps_channel_def)
qed

lemma Notify_pipe_keeps:
  assumes "pipe_opened w" and "Notify_pipe uf w = (out, w')"
  shows "keeps_channel w w'"
proof -
  obtain x w1 where wr: "sys_write (mWriteFD (wake w)) 1 w = (x, w1)"
    by (cases "sys_write (mWriteFD (wake w)) 1 w") auto
  note k1 = sys_write_keeps [OF wr]
  from assms(1) have op0: "fd_lookup w (mReadFD (wake w)) \<noteq> None"
      "fd_lookup w (mWriteFD (wake w)) \<noteq> None"
    by (auto simp: pipe_opened_def split: option.splits open_file.splits vnode.splits bool.splits)
  with k1 have op1: "fd_lookup w1 (mReadFD (wake w1)) \<noteq> None"
      "fd_lookup w1 (mWriteFD (wake w1)) \<noteq> None"
    by (simp_all add: keeps_channel_def)
  obtain y w2 where op: "sys_open kChipEventFifoPath {O_WRONLY} w1 = (y, w2)"
    by (cases "sys_open kChipEventFifoPath {O_WRONLY} w1") auto
  have k2: "keeps_channel w1 w2"
    using sys_open_wronly_keeps [OF op _ op1] by simp
  note k12 = keeps_channel_trans [OF k1 k2]
  show ?thesis
  proof (cases x)
    case Hang
    with wr assms(2) k1 show ?thesis by (simp add: Notify_pipe_def)
  next
    case (Ret r)
    note x = this
    show ?thesis
    proof (cases "r < 0 \<and> cur_errno w1 \<noteq> EAGAIN \<and> cur_errno w1 \<noteq> EWOULDBLOCK")
      case False
      with wr x assms(2) k1 show ?thesis by (auto simp: Notify_pipe_def)
    next
      case hard: True
      show ?thesis
      proof (cases uf)
        case False
        with wr x hard assms(2) k1 show ?thesis by (auto simp: Notify_pipe_def)
      next
        case True
        show ?thesis
        proof (cases y)
          case Hang
          with wr x hard True op assms(2) k12 show ?thesis by (simp add: Notify_pipe_def)
        next
          case (Ret fd)
          note fd = this
          show ?thesis
          proof (cases "fd = - 1")
            case True
            with wr x hard \<open>uf\<close> op fd assms(2)
            have "w' = ChipLogError ''Notify event failed to open fifo'' w2"
              by (simp add: Notify_pipe_def)
            with keeps_channel_trans [OF k12 ChipLogError_keeps] show ?thesis by simp
          next
            case False
            from sys_open_fresh [OF op [unfolded fd] False]
            have fresh: "fd_lookup w1 fd = None" by simp
            from fresh op1 have ne1: "fd \<noteq> mReadFD (wake w1)" "fd \<noteq> mWriteFD (wake w1)"
              by auto
            from sys_open_fields [OF op] fd False
            obtain p where t: "fd_lookup w2 fd = Some (OpenFile (PipeWriteEnd p) False)"
              by (auto simp: fd_lookup_def)
            obtain z w3 where wr2: "sys_write fd 1 w2 = (z, w3)"
              by (cases "sys_write fd 1 w2") auto
            note k3 = sys_write_keeps [OF wr2]
            note k13 = keeps_channel_trans [OF k12 k3]
            from sys_write_fields [OF wr2] t
            have t3: "fd_lookup w3 fd = Some (OpenFile (PipeWriteEnd p) False)"
              using fd_lookup_same [of w3 w2 fd] by simp
            from ne1 k2 k3 have ne3: "fd \<noteq> mReadFD (wake w3)" "fd \<noteq> mWriteFD (wake w3)"
              by (simp_all add: keeps_channel_def)
            obtain rc w4 where cl: "sys_close fd w3 = (rc, w4)"
              by (cases "sys_close fd w3") auto
            note k4 = sys_close_writer_keeps [OF cl ne3 t3]
            note k14 = keeps_channel_trans [OF k13 k4]
            show ?thesis
            proof (cases z)
              case Hang
              with wr x hard \<open>uf\<close> op fd False wr2 assms(2) k13 show ?thesis
                by (simp add: Notify_pipe_def)
            next
              case (Ret r2)
              with wr x hard \<open>uf\<close> op fd False wr2 cl assms(2)
              have "w' = w4 \<or> w' = ChipLogError ''Failed to notify event by fifo'' w4"
                by (auto simp: Notify_pipe_def split: if_splits)
              with k14 keeps_channel_trans [OF k14 ChipLogError_keeps] show ?thesis
                by auto
            qed
          qed
        qed
      qed
    qed
  qed
qed

lemma Notify_eventfd_keeps: "Notify_eventfd z w = (out, w') \<Longrightarrow> keeps_channel w w'"
  by (auto simp: Notify_eventfd_def split: prod.splits sysret.splits if_splits
      dest: WriteEvent_keeps)

lemma Confirm_eventfd_keeps: "Confirm_eventfd z w = (out, w') \<Longrightarrow> keeps_channel w w'"
  by (auto simp: Confirm_eventfd_def split: prod.splits sysret.splits if_splits
      dest: ReadEvent_keeps intro: keeps_channel_trans [OF _ ChipLogError_keeps])

lemma Confirm_pipe_keeps: "keeps_channel w (snd (Confirm_pipe w))"
proof (induction w rule: Confirm_pipe.induct)
  case (1 w0)
  obtain x w1 where rd: "sys_read (mReadFD (wake w0)) 128 w0 = (x, w1)"
    by (cases "sys_read (mReadFD (wake w0)) 128 w0") auto
  note k = sys_read_keeps [OF rd]
  show ?case
  proof (cases x)
    case Hang
    with rd k show ?thesis
      by (subst Confirm_pipe.simps) simp
  next
    case (Ret res)
    show ?thesis
    proof (cases "res < 0 \<and> cur_errno w1 \<noteq> EAGAIN \<and> cur_errno w1 \<noteq> EWOULDBLOCK")
      case True
      with rd Ret keeps_channel_trans [OF k ChipLogError_keeps] show ?thesis
        by (subst Confirm_pipe.simps) simp
    next
      case hard: False
      show ?thesis
      proof (cases "res = 128")
        case True
        have "Confirm_pipe w0 = Confirm_pipe w1"
          using rd Ret hard True by (subst Confirm_pipe.simps) simp
        with keeps_channel_trans [OF k "1.IH" [OF rd [symmetric] Ret hard True]] show ?thesis
          by simp
      next
        case False
        with rd Ret hard k show ?thesis
          by (subst Confirm_pipe.simps) auto
      qed
    qed
  qed
qed

section \<open>What a successful Open establishes\<close>

lemma sys_pipe_ok:
  assumes "sys_pipe w0 = ((r, fr, fw), w1)" and "\<not> r < 0"
  shows "fd_lookup w1 fr = Some (OpenFile (PipeReadEnd (length (pipes w0))) False)
         \<and> fd_lookup w1 fw = Some (OpenFile (PipeWriteEnd (length (pipes w0))) False)
         \<and> pipes w1 = pipes w0 @ [\<lparr>buffered = 0, capacity = pipe_size w0, readers = 1, writers = 1\<rparr>]
         \<and> wake w1 = wake w0 \<and> counters w1 = counters w0"
proof -
  obtain f w where enter: "sys_enter EvPipe w0 = (f, w)"
    by (cases "sys_enter EvPipe w0") auto
  note fields = sys_enter_fields [OF enter]
  from assms enter fields show ?thesis
    by (auto simp: sys_pipe_def sys_fail_def fd_lookup_def nth_list_update
        split: option.splits dest!: first_free_Some)
qed

lemma sys_fcntl_getfl_fields:
  "sys_fcntl_getfl fd w = (flags, w') \<Longrightarrow>
     fdtab w' = fdtab w \<and> pipes w' = pipes w \<and> wake w' = wake w \<and> counters w' = counters w"
  by (auto simp: sys_fcntl_getfl_def sys_enter_def sys_fail_def split: list.splits option.splits)

lemma sys_fcntl_setfl_ok:
  assumes "sys_fcntl_setfl fd flags w = (r, w')" and "\<not> r < 0"
  shows "\<exists>t nb. fd_lookup w fd = Some (OpenFile t nb)
           \<and> fdtab w' = (fdtab w)[nat fd := Some (OpenFile t (O_NONBLOCK \<in> flags))]
           \<and> pipes w' = pipes w \<and> wake w' = wake w \<and> counters w' = counters w"
proof -
  obtain f w1 where enter: "sys_enter (EvFcntlSetfl fd flags) w = (f, w1)"
    by (cases "sys_enter (EvFcntlSetfl fd flags) w") auto
  note fields = sys_enter_fields [OF enter] and look = sys_enter_lookup [OF enter, of fd]
  from assms enter fields look show ?thesis
    by (auto simp: sys_fcntl_setfl_def sys_fail_def split: option.splits)
      (metis open_file.collapse)
qed

lemma SetNonBlockingMode_ok:
  assumes "SetNonBlockingMode fd w = (r, w')" and "\<not> r < 0"
  shows "\<exists>t nb. fd_lookup w fd = Some (OpenFile t nb)
           \<and> fdtab w' = (fdtab w)[nat fd := Some (OpenFile t True)]
           \<and> pipes w' = pipes w \<and> wake w' = wake w \<and> counters w' = counters w"
proof -
  obtain flags w1 where g: "sys_fcntl_getfl fd w = (flags, w1)"
    by (cases "sys_fcntl_getfl fd w") auto
  note gf = sys_fcntl_getfl_fields [OF g]
  from assms(1) g have s: "sys_fcntl_setfl fd (flags \<union> {O_NONBLOCK}) w1 = (r, w')"
    by (simp add: SetNonBlockingMode_def)
  from sys_fcntl_setfl_ok [OF s assms(2)] gf fd_lookup_same [of w1 w fd] show ?thesis
    by auto
qed


lemma OpenPipePair_ok:
  assumes "wf_world w0" and "OpenPipePair w0 = (Inr (fr, fw), w)"
  shows "\<exists>p. fd_lookup w fr = Some (OpenFile (PipeReadEnd p) True)
           \<and> fd_lookup w fw = Some (OpenFile (PipeWriteEnd p) True)
           \<and> p < length (pipes w) \<and> 0 < readers (pipes w ! p) \<and> 0 < capacity (pipes w ! p)"
proof -
  obtain r a b w1 where p: "sys_pipe w0 = ((r, a, b), w1)"
    by (cases "sys_pipe w0") auto
  obtain r2 w2 where s1: "SetNonBlockingMode a w1 = (r2, w2)"
    by (cases "SetNonBlockingMode a w1") auto
  obtain r3 w3 where s2: "SetNonBlockingMode b w2 = (r3, w3)"
    by (cases "SetNonBlockingMode b w2") auto
  from assms(2) p s1 s2 have ok: "\<not> r < 0" "\<not> r2 < 0" "\<not> r3 < 0" and eq: "fr = a" "fw = b" "w = w3"
    by (auto simp: OpenPipePair_def split: if_splits)
  let ?p = "length (pipes w0)"
  from sys_pipe_ok [OF p ok(1)]
  have la: "fd_lookup w1 a = Some (OpenFile (PipeReadEnd ?p) False)"
    and lb: "fd_lookup w1 b = Some (OpenFile (PipeWriteEnd ?p) False)"
    and ps1: "pipes w1 = pipes w0 @ [\<lparr>buffered = 0, capacity = pipe_size w0, readers = 1, writers = 1\<rparr>]"
    by simp_all
  from la lb have ab: "a \<noteq> b" by auto
  from SetNonBlockingMode_ok [OF s1 ok(2)] la
  have tab2: "fdtab w2 = (fdtab w1)[nat a := Some (OpenFile (PipeReadEnd ?p) True)]"
    and ps2: "pipes w2 = pipes w1"
    by auto
  from la have ina: "nat a < length (fdtab w1)" "int (nat a) = a"
    by (auto simp: fd_lookup_def split: if_splits)
  from fd_lookup_upd [OF tab2] ina la lb ab
  have la2: "fd_lookup w2 a = Some (OpenFile (PipeReadEnd ?p) True)"
    and lb2: "fd_lookup w2 b = Some (OpenFile (PipeWriteEnd ?p) False)"
    by auto
  from SetNonBlockingMode_ok [OF s2 ok(3)] lb2
  have tab3: "fdtab w3 = (fdtab w2)[nat b := Some (OpenFile (PipeWriteEnd ?p) True)]"
    and ps3: "pipes w3 = pipes w2"
    by auto
  from lb2 have inb: "nat b < length (fdtab w2)" "int (nat b) = b"
    by (auto simp: fd_lookup_def split: if_splits)
  from fd_lookup_upd [OF tab3] inb la2 lb2 ab
  have la3: "fd_lookup w3 a = Some (OpenFile (PipeReadEnd ?p) True)"
    and lb3: "fd_lookup w3 b = Some (OpenFile (PipeWriteEnd ?p) True)"
    by auto
  from assms(1) have "0 < pipe_size w0"
    by (simp add: wf_world_def)
  with la3 lb3 ps1 ps2 ps3 eq show ?thesis
    by (intro exI [of _ ?p]) simp
qed

lemma sys_mkfifo_fields:
  assumes "sys_mkfifo path w0 = (r, w1)" and "wf_world w0"
  shows "wf_world w1 \<and> fdtab w1 = fdtab w0 \<and> wake w1 = wake w0"
proof -
  obtain f w where enter: "sys_enter (EvMkfifo path) w0 = (f, w)"
    by (cases "sys_enter (EvMkfifo path) w0") auto
  note fields = sys_enter_fields [OF enter]
  from assms enter fields show ?thesis
    by (auto simp: sys_mkfifo_def sys_fail_def wf_world_def split: option.splits)
qed

lemma OpenFifoPair_ok:
  assumes "wf_world w0" and "OpenFifoPair w0 = (Inr (fr, fw), w)"
  shows "\<exists>p. fd_lookup w fr = Some (OpenFile (PipeReadEnd p) True)
           \<and> fd_lookup w fw = Some (OpenFile (PipeWriteEnd p) True)
           \<and> p < length (pipes w) \<and> 0 < readers (pipes w ! p) \<and> 0 < capacity (pipes w ! p)"
proof -
  obtain r w1 where mk: "sys_mkfifo kChipEventFifoPath w0 = (r, w1)"
    by (cases "sys_mkfifo kChipEventFifoPath w0") auto
  note wf1 = sys_mkfifo_fields [OF mk assms(1)]
  obtain x w2 where o1: "sys_open kChipEventFifoPath {O_RDONLY, O_NONBLOCK} w1 = (x, w2)"
    by (cases "sys_open kChipEventFifoPath {O_RDONLY, O_NONBLOCK} w1") auto
  obtain y w3 where o2: "sys_open kChipEventFifoPath {O_WRONLY, O_NONBLOCK} w2 = (y, w3)"
    by (cases "sys_open kChipEventFifoPath {O_WRONLY, O_NONBLOCK} w2") auto
  from assms(2) mk o1 o2 have x: "x = Ret fr" "fr \<noteq> - 1" and y: "y = Ret fw" "fw \<noteq> - 1"
    and w: "w = w3"
    by (auto simp: OpenFifoPair_def split: if_splits sysret.splits)
  from sys_open_fields [OF o1] x
  obtain a p where a: "fr = int a" "a < length (fdtab w1)"
    and p: "map_of (fifos w1) kChipEventFifoPath = Some p" "p < length (pipes w1)"
    and tab2: "fdtab w2 = (fdtab w1)[a := Some (OpenFile (PipeReadEnd p) True)]"
    and ps2: "pipes w2 = (pipes w1)[p := (pipes w1 ! p)\<lparr>readers := Suc (readers (pipes w1 ! p))\<rparr>]"
    and fi2: "fifos w2 = fifos w1"
    by auto
  from fd_lookup_upd [OF tab2] a
  have la2: "fd_lookup w2 fr = Some (OpenFile (PipeReadEnd p) True)"
    by simp
  from sys_open_fields [OF o2] y p fi2
  obtain b where b: "fw = int b" "b < length (fdtab w2)" "fdtab w2 ! b = None"
    and tab3: "fdtab w3 = (fdtab w2)[b := Some (OpenFile (PipeWriteEnd p) True)]"
    and ps3: "pipes w3 = (pipes w2)[p := (pipes w2 ! p)\<lparr>writers := Suc (writers (pipes w2 ! p))\<rparr>]"
    by auto
  from b la2 have ne: "fr \<noteq> fw"
    by (auto simp: fd_lookup_def)
  from fd_lookup_upd [OF tab3] b la2 ne
  have la3: "fd_lookup w3 fr = Some (OpenFile (PipeReadEnd p) True)"
    and lb3: "fd_lookup w3 fw = Some (OpenFile (PipeWriteEnd p) True)"
    by auto
  from wf1 p have "0 < capacity (pipes w1 ! p)"
    by (simp add: wf_world_def)
  with p ps2 ps3 la3 lb3 w show ?thesis
    by (intro exI [of _ p]) simp
qed


lemma StartWatchingSocket_fields:
  "StartWatchingSocket fd t w = (x, w') \<Longrightarrow>
     fdtab w' = fdtab w \<and> pipes w' = pipes w \<and> counters w' = counters w \<and> wake w' = wake w
     \<and> faults w' = tl (faults w)"
  by (auto simp: StartWatchingSocket_def sys_enter_def split: list.splits option.splits)

lemma SetCallback_fields:
  "SetCallback t w = (x, w') \<Longrightarrow>
     fdtab w' = fdtab w \<and> pipes w' = pipes w \<and> counters w' = counters w \<and> wake w' = wake w
     \<and> faults w' = tl (faults w)"
  by (auto simp: SetCallback_def sys_enter_def split: list.splits option.splits)

lemma RequestCallbackOnPendingRead_fields:
  "RequestCallbackOnPendingRead t w = (x, w') \<Longrightarrow>
     fdtab w' = fdtab w \<and> pipes w' = pipes w \<and> counters w' = counters w \<and> wake w' = wake w
     \<and> faults w' = tl (faults w)"
  by (auto simp: RequestCallbackOnPendingRead_def sys_enter_def split: list.splits option.splits)

lemma WatchReadFD_fields:
  assumes "WatchReadFD w = (out, w')"
  shows "fdtab w' = fdtab w \<and> pipes w' = pipes w \<and> counters w' = counters w
         \<and> mReadFD (wake w') = mReadFD (wake w) \<and> mWriteFD (wake w') = mWriteFD (wake w)"
proof -
  obtain e1 t w1 where a: "StartWatchingSocket (mReadFD (wake w)) (mReadWatch (wake w)) w = ((e1, t), w1)"
    by (cases "StartWatchingSocket (mReadFD (wake w)) (mReadWatch (wake w)) w") auto
  let ?w1 = "w1\<lparr>wake := (wake w1)\<lparr>mReadWatch := t\<rparr>\<rparr>"
  obtain e2 w2 where b: "SetCallback t ?w1 = (e2, w2)"
    by (cases "SetCallback t ?w1") auto
  obtain e3 w3 where c: "RequestCallbackOnPendingRead (mReadWatch (wake w2)) w2 = (e3, w3)"
    by (cases "RequestCallbackOnPendingRead (mReadWatch (wake w2)) w2") auto
  note fa = StartWatchingSocket_fields [OF a] and fb = SetCallback_fields [OF b]
    and fc = RequestCallbackOnPendingRead_fields [OF c]
  from assms a b c have "w' = ?w1 \<or> w' = w2 \<or> w' = w3"
    by (auto simp: WatchReadFD_def split: if_splits)
  with fa fb fc show ?thesis
    by auto
qed

lemma pipe_opened_same:
  assumes "fdtab w' = fdtab w" and "pipes w' = pipes w"
    and "mReadFD (wake w') = mReadFD (wake w)" and "mWriteFD (wake w') = mWriteFD (wake w)"
  shows "pipe_opened w' = pipe_opened w"
  using assms fd_lookup_same [OF assms(1)]
  by (auto simp: pipe_opened_def split: option.splits open_file.splits vnode.splits bool.splits)

lemma event_opened_same:
  assumes "fdtab w' = fdtab w" and "counters w' = counters w"
    and "mReadFD (wake w') = mReadFD (wake w)"
  shows "event_opened w' = event_opened w \<and> wake_counter w' = wake_counter w"
  using assms fd_lookup_same [OF assms(1)]
  by (auto simp: event_opened_def wake_counter_def
      split: option.splits open_file.splits vnode.splits bool.splits)

lemma Open_pipe_opened:
  assumes "wf_world w0" and "Open_pipe uf w0 = (Returns CHIP_NO_ERROR, w1)"
  shows "pipe_opened w1"
proof -
  obtain res w where pair: "(if uf then OpenFifoPair w0 else OpenPipePair w0) = (res, w)"
    by (cases "if uf then OpenFifoPair w0 else OpenPipePair w0") auto
  have early: "res \<noteq> Inl (Returns CHIP_NO_ERROR)"
    using pair
    by (auto simp: OpenFifoPair_def OpenPipePair_def
        split: if_splits prod.splits sysret.splits)
  with assms(2) pair obtain fr fw where res: "res = Inr (fr, fw)"
    by (cases res) (auto simp: Open_pipe_def)
  let ?w = "w\<lparr>wake := (wake w)\<lparr>mReadFD := fr, mWriteFD := fw\<rparr>\<rparr>"
  from assms(2) pair res have watch: "WatchReadFD ?w = (Returns CHIP_NO_ERROR, w1)"
    by (simp add: Open_pipe_def)
  from pair res assms(1) OpenFifoPair_ok [of w0 fr fw w] OpenPipePair_ok [of w0 fr fw w]
  obtain p where "fd_lookup w fr = Some (OpenFile (PipeReadEnd p) True)"
    and "fd_lookup w fw = Some (OpenFile (PipeWriteEnd p) True)"
    and "p < length (pipes w)" and "0 < readers (pipes w ! p)" and "0 < capacity (pipes w ! p)"
    by (cases uf) auto
  then have "pipe_opened ?w"
    using fd_lookup_same [of ?w w] by (simp add: pipe_opened_def)
  with pipe_opened_same [of w1 ?w] WatchReadFD_fields [OF watch] show ?thesis
    by simp
qed

lemma sys_eventfd_ok:
  assumes "sys_eventfd initval flags w0 = (fd, w1)" and "fd \<noteq> - 1"
  shows "fd_lookup w1 fd = Some (OpenFile (EventCounter (length (counters w0))) (EFD_NONBLOCK \<in> flags))
         \<and> counters w1 = counters w0 @ [ucast initval] \<and> wake w1 = wake w0"
proof -
  obtain f w where enter: "sys_enter EvEventfd w0 = (f, w)"
    by (cases "sys_enter EvEventfd w0") auto
  note fields = sys_enter_fields [OF enter]
  from assms enter fields show ?thesis
    by (auto simp: sys_eventfd_def sys_fail_def fd_lookup_def
        split: option.splits dest!: first_free_Some)
qed

lemma Open_eventfd_opened:
  assumes "Open_eventfd w0 = (Returns CHIP_NO_ERROR, w1)"
  shows "event_opened w1 \<and> wake_counter w1 = Some 0"
proof -
  obtain fd w where ev: "sys_eventfd 0 {} w0 = (fd, w)"
    by (cases "sys_eventfd 0 {} w0") auto
  let ?w = "w\<lparr>wake := (wake w)\<lparr>mReadFD := fd\<rparr>\<rparr>"
  from assms ev have fd: "fd \<noteq> - 1" and watch: "WatchReadFD ?w = (Returns CHIP_NO_ERROR, w1)"
    by (auto simp: Open_eventfd_def split: if_splits)
  from sys_eventfd_ok [OF ev fd] fd_lookup_same [of ?w w fd]
  have "event_opened ?w \<and> wake_counter ?w = Some 0"
    by (simp add: event_opened_def wake_counter_def nth_append)
  with event_opened_same [of w1 ?w] WatchReadFD_fields [OF watch] show ?thesis
    by simp
qed

lemma Open_opened:
  assumes "wf_world w0" and "Open b w0 = (Returns CHIP_NO_ERROR, w1)"
  shows "opened b w1"
  using assms Open_pipe_opened [of w0 _ w1] Open_eventfd_opened [of w0 w1]
  by (cases b) (simp_all add: Open_def opened_def)

section \<open>Notify and Confirm in an environment without injected faults\<close>

lemma pipe_openedD:
  assumes "pipe_opened w"
  obtains p where "fd_lookup w (mReadFD (wake w)) = Some (OpenFile (PipeReadEnd p) True)"
    and "fd_lookup w (mWriteFD (wake w)) = Some (OpenFile (PipeWriteEnd p) True)"
    and "p < length (pipes w)" and "0 < readers (pipes w ! p)" and "0 < capacity (pipes w ! p)"
  using assms
  by (auto simp: pipe_opened_def split: option.splits open_file.splits vnode.splits bool.splits)

lemma event_openedD:
  assumes "event_opened w"
  obtains c where "fd_lookup w (mReadFD (wake w)) = Some (OpenFile (EventCounter c) False)"
    and "c < length (counters w)" and "wake_counter w = Some (counters w ! c)"
  using assms
  by (auto simp: event_opened_def wake_counter_def
      split: option.splits open_file.splits vnode.splits bool.splits)

lemma sys_enter_nofault:
  "faults w = [] \<Longrightarrow> sys_enter e w = (None, w\<lparr>trace := trace w @ [e]\<rparr>)"
  by (simp add: sys_enter_def)

lemma pipe_readable: "pipe_opened w \<Longrightarrow> readable w = (0 < pending (mReadFD (wake w)) w)"
  by (erule pipe_openedD) (simp add: readable_def poll_in_def pending_def)

lemma event_readable:
  "event_opened w \<Longrightarrow> readable w = (wake_counter w \<noteq> Some 0) \<and> pending (mReadFD (wake w)) w = 0"
  by (erule event_openedD) (simp add: readable_def poll_in_def pending_def)

lemma Notify_pipe_nofault:
  assumes "pipe_opened w" and "faults w = []"
  shows "\<exists>w'. Notify_pipe uf w = (Returns CHIP_NO_ERROR, w') \<and> faults w' = []
           \<and> 0 < pending (mReadFD (wake w')) w' \<and> pipe_opened w'"
proof -
  from assms(1) obtain p where r: "fd_lookup w (mReadFD (wake w)) = Some (OpenFile (PipeReadEnd p) True)"
    and wr: "fd_lookup w (mWriteFD (wake w)) = Some (OpenFile (PipeWriteEnd p) True)"
    and p: "p < length (pipes w)" "0 < readers (pipes w ! p)" "0 < capacity (pipes w ! p)"
    by (rule pipe_openedD)
  let ?w = "w\<lparr>trace := trace w @ [EvWrite (mWriteFD (wake w)) 1]\<rparr>"
  have look: "fd_lookup ?w fd = fd_lookup w fd" for fd
    by (simp add: fd_lookup_def)
  obtain x w1 where sw: "sys_write (mWriteFD (wake w)) 1 w = (x, w1)"
    by (cases "sys_write (mWriteFD (wake w)) 1 w") auto
  note k = sys_write_keeps [OF sw]
  from sw sys_enter_nofault [OF assms(2)] assms(2) wr p look
  have res: "(x = Ret 1 \<and> 0 < buffered (pipes w1 ! p)
              \<or> x = Ret (- 1) \<and> cur_errno w1 = EAGAIN \<and> 0 < buffered (pipes w1 ! p))
             \<and> faults w1 = [] \<and> fdtab w1 = fdtab w"
    by (auto simp: sys_write_def sys_fail_def split: if_splits)
  from k r p have "pending (mReadFD (wake w1)) w1 = buffered (pipes w1 ! p)"
    by (simp add: keeps_channel_def pending_def)
  with res keeps_pipe_opened [OF k assms(1)] sw show ?thesis
    by (auto simp: Notify_pipe_def)
qed

lemma sys_read_nofault:
  assumes "pipe_opened w" and "faults w = []" and "sys_read (mReadFD (wake w)) 128 w = (x, w')"
  shows "faults w' = []
         \<and> (x = Ret 128
            \<or> (\<exists>r. x = Ret r \<and> r \<noteq> 128 \<and> (r < 0 \<longrightarrow> cur_errno w' = EAGAIN)
                  \<and> pending (mReadFD (wake w')) w' = 0))"
proof -
  from assms(1) obtain p where r: "fd_lookup w (mReadFD (wake w)) = Some (OpenFile (PipeReadEnd p) True)"
    and p: "p < length (pipes w)"
    by (rule pipe_openedD)
  let ?w = "w\<lparr>trace := trace w @ [EvRead (mReadFD (wake w)) 128]\<rparr>"
  have look: "fd_lookup ?w fd = fd_lookup w fd" for fd
    by (simp add: fd_lookup_def)
  note k = sys_read_keeps [OF assms(3)]
  from k r p have pend: "pending (mReadFD (wake w')) w' = buffered (pipes w' ! p)"
    by (simp add: keeps_channel_def pending_def)
  from assms(3) sys_enter_nofault [OF assms(2)] assms(2) r p look pend show ?thesis
    by (auto simp: sys_read_def sys_fail_def min_def split: if_splits)
qed


lemma Confirm_pipe_drains:
  "pipe_opened w \<Longrightarrow> faults w = [] \<Longrightarrow>
     \<exists>w'. Confirm_pipe w = (Returns (), w') \<and> pending (mReadFD (wake w')) w' = 0
            \<and> faults w' = [] \<and> pipe_opened w'"
proof (induction w rule: Confirm_pipe.induct)
  case (1 w0)
  obtain x w1 where rd: "sys_read (mReadFD (wake w0)) 128 w0 = (x, w1)"
    by (cases "sys_read (mReadFD (wake w0)) 128 w0") auto
  note k = sys_read_keeps [OF rd]
  note op1 = keeps_pipe_opened [OF k "1.prems"(1)]
  from sys_read_nofault [OF "1.prems" rd] have f1: "faults w1 = []"
    and alt: "x = Ret 128
            \<or> (\<exists>r. x = Ret r \<and> r \<noteq> 128 \<and> (r < 0 \<longrightarrow> cur_errno w1 = EAGAIN)
                  \<and> pending (mReadFD (wake w1)) w1 = 0)"
    by simp_all
  from alt show ?case
  proof
    assume x: "x = Ret 128"
    have soft: "\<not> ((128::int) < 0 \<and> cur_errno w1 \<noteq> EAGAIN \<and> cur_errno w1 \<noteq> EWOULDBLOCK)"
      by simp
    have "Confirm_pipe w0 = Confirm_pipe w1"
      using rd x by (subst Confirm_pipe.simps) simp
    with "1.IH" [OF rd [symmetric] x soft refl op1 f1] show ?thesis
      by simp
  next
    assume "\<exists>r. x = Ret r \<and> r \<noteq> 128 \<and> (r < 0 \<longrightarrow> cur_errno w1 = EAGAIN)
                  \<and> pending (mReadFD (wake w1)) w1 = 0"
    then obtain r where "x = Ret r" "r \<noteq> 128" "r < 0 \<longrightarrow> cur_errno w1 = EAGAIN"
      and "pending (mReadFD (wake w1)) w1 = 0"
      by blast
    with rd f1 op1 show ?thesis
      by (subst Confirm_pipe.simps) auto
  qed
qed

lemma Notify_eventfd_nofault:
  assumes "event_opened w" and "faults w = []" and "wake_counter w = Some c"
  shows "\<exists>w'. Notify_eventfd z w =
               (if unat c < 2 ^ 64 - 2 then Returns CHIP_NO_ERROR else Blocks, w')
           \<and> faults w' = [] \<and> event_opened w'
           \<and> wake_counter w' = Some (if unat c < 2 ^ 64 - 2 then c + 1 else c)"
proof -
  from assms(1) obtain i where r: "fd_lookup w (mReadFD (wake w)) = Some (OpenFile (EventCounter i) False)"
    and i: "i < length (counters w)" and cnt: "wake_counter w = Some (counters w ! i)"
    by (rule event_openedD)
  from cnt assms(3) have c: "counters w ! i = c" by simp
  let ?w = "w\<lparr>trace := trace w @ [EvWrite (mReadFD (wake w)) 8]\<rparr>"
  have look: "fd_lookup ?w fd = fd_lookup w fd" for fd
    by (simp add: fd_lookup_def)
  obtain x w1 where we: "WriteEvent z (mReadFD (wake w)) w = (x, w1)"
    by (cases "WriteEvent z (mReadFD (wake w)) w") auto
  note k = WriteEvent_keeps [OF we]
  have one: "unat (1 :: 64 word) = 1" "(1 :: 64 word) \<noteq> - 1"
    by simp_all
  from we sys_enter_nofault [OF assms(2)] assms(2) r i c look one
  have res: "(if unat c < 2 ^ 64 - 2
              then (x = Ret 8 \<or> x = Ret 0) \<and> counters w1 = (counters w)[i := c + 1]
              else x = Hang \<and> counters w1 = counters w)
             \<and> faults w1 = [] \<and> fdtab w1 = fdtab w \<and> wake w1 = wake w"
    by (auto simp: WriteEvent_def eventfd_add_def sys_fail_def split: if_splits)
  from res r i fd_lookup_same [of w1 w "mReadFD (wake w)"] c
  have "wake_counter w1 = Some (if unat c < 2 ^ 64 - 2 then c + 1 else c)"
    by (auto simp: wake_counter_def)
  with res keeps_event_opened [OF k assms(1)] we show ?thesis
    by (auto simp: Notify_eventfd_def)
qed

lemma Confirm_eventfd_nofault:
  assumes "event_opened w" and "faults w = []" and "wake_counter w = Some c"
  shows "\<exists>w'. Confirm_eventfd z w = (if c \<noteq> 0 then Returns () else Blocks, w')
           \<and> faults w' = [] \<and> event_opened w' \<and> wake_counter w' = Some 0
           \<and> trace w' = trace w @ [EvRead (mReadFD (wake w)) 8]
           \<and> cur_errno w' = cur_errno w
           \<and> eventfd_fetch (if z then 0 else 8) (mReadFD (wake w)) w
               = ((if c \<noteq> 0 then Ret (if z then 0 else 8) else Hang, c), w')"
proof -
  from assms(1) obtain i where r: "fd_lookup w (mReadFD (wake w)) = Some (OpenFile (EventCounter i) False)"
    and i: "i < length (counters w)" and cnt: "wake_counter w = Some (counters w ! i)"
    by (rule event_openedD)
  from cnt assms(3) have c: "counters w ! i = c" by simp
  let ?w = "w\<lparr>trace := trace w @ [EvRead (mReadFD (wake w)) 8]\<rparr>"
  have look: "fd_lookup ?w fd = fd_lookup w fd" for fd
    by (simp add: fd_lookup_def)
  let ?ok = "if z then 0 else 8 :: int"
  obtain x v w1 where fe: "eventfd_fetch ?ok (mReadFD (wake w)) w = ((x, v), w1)"
    by (cases "eventfd_fetch ?ok (mReadFD (wake w)) w") auto
  from fe have re: "ReadEvent z (mReadFD (wake w)) w = (x, w1)"
    by (simp add: ReadEvent_def)
  note k = ReadEvent_keeps [OF re]
  from fe sys_enter_nofault [OF assms(2)] assms(2) r i c look
  have res: "(if c \<noteq> 0
              then x = Ret ?ok \<and> v = c \<and> counters w1 = (counters w)[i := 0]
              else x = Hang \<and> v = c \<and> counters w1 = counters w)
             \<and> faults w1 = [] \<and> fdtab w1 = fdtab w \<and> wake w1 = wake w
             \<and> trace w1 = trace w @ [EvRead (mReadFD (wake w)) 8]
             \<and> cur_errno w1 = cur_errno w"
    by (auto simp: eventfd_fetch_def sys_fail_def split: if_splits)
  from res r i fd_lookup_same [of w1 w "mReadFD (wake w)"] c
  have "wake_counter w1 = Some 0"
    by (auto simp: wake_counter_def split: if_splits)
  with res keeps_event_opened [OF k assms(1)] re fe show ?thesis
    by (auto simp: Confirm_eventfd_def)
qed

section \<open>Runs of Notify followed by Confirm\<close>

lemma unat_minus_one_64: "unat (- 1 :: 64 word) = 2 ^ 64 - 1"
  by (simp add: unsigned_minus_1_eq_mask mask_eq_exp_minus_1)

lemma unat_of_nat_64: "k < 2 ^ 64 \<Longrightarrow> unat (of_nat k :: 64 word) = k"
  by (simp add: unat_of_nat)

lemma word64_succ_nonzero: "unat (c :: 64 word) < 2 ^ 64 - 2 \<Longrightarrow> c + 1 \<noteq> 0"
proof
  assume a: "unat c < 2 ^ 64 - 2" and "c + 1 = 0"
  then have "c = - 1"
    by (simp add: eq_neg_iff_add_eq_0)
  with unat_minus_one_64 have "unat c = 2 ^ 64 - 1"
    by simp
  with a show False
    by simp
qed

lemma Notify_nofault:
  assumes "opened b w" and "faults w = []" and "Notify b w = (Returns r, w')"
  shows "opened b w' \<and> faults w' = [] \<and> readable w'"
proof (cases "b = Pipe \<or> b = NamedFifo")
  case True
  then have po: "pipe_opened w" and n: "Notify b w = Notify_pipe (b = NamedFifo) w"
    using assms(1) by (auto simp: opened_def Notify_def)
  from Notify_pipe_nofault [OF po assms(2), of "b = NamedFifo"] n assms(3)
  have "faults w' = [] \<and> 0 < pending (mReadFD (wake w')) w' \<and> pipe_opened w'"
    by auto
  with True pipe_readable [of w'] show ?thesis
    by (auto simp: opened_def)
next
  case False
  then have eo: "event_opened w" and n: "Notify b w = Notify_eventfd (b = ZephyrEventFd) w"
    using assms(1) by (cases b; simp add: opened_def Notify_def)+
  from eo obtain c where c: "wake_counter w = Some c"
    by (rule event_openedD)
  from Notify_eventfd_nofault [OF eo assms(2) c, of "b = ZephyrEventFd"] n assms(3)
  have lt: "unat c < 2 ^ 64 - 2" and "faults w' = []" and eo': "event_opened w'"
    and "wake_counter w' = Some (c + 1)"
    by (auto split: if_splits)
  with word64_succ_nonzero [OF lt] event_readable [OF eo'] False show ?thesis
    by (cases b) (auto simp: opened_def)
qed

lemma notify_n_nofault:
  "opened b w \<Longrightarrow> faults w = [] \<Longrightarrow> notify_n b n w = Some w2 \<Longrightarrow>
     opened b w2 \<and> faults w2 = [] \<and> (0 < n \<longrightarrow> readable w2)"
proof (induction n arbitrary: w)
  case 0
  then show ?case by simp
next
  case (Suc n)
  from Suc.prems(3) obtain r w' where n: "Notify b w = (Returns r, w')"
    and rest: "notify_n b n w' = Some w2"
    by (auto split: prod.splits outcome.splits)
  note step = Notify_nofault [OF Suc.prems(1,2) n]
  from Suc.IH [OF _ _ rest] step have "opened b w2 \<and> faults w2 = [] \<and> (0 < n \<longrightarrow> readable w2)"
    by simp
  moreover from rest step have "n = 0 \<Longrightarrow> readable w2"
    by simp
  ultimately show ?case
    by auto
qed

lemma notify_n_pipe_total:
  "pipe_opened w \<Longrightarrow> faults w = [] \<Longrightarrow> b = Pipe \<or> b = NamedFifo \<Longrightarrow>
     \<exists>w2. notify_n b n w = Some w2"
proof (induction n arbitrary: w)
  case 0
  then show ?case by simp
next
  case (Suc n)
  from Notify_pipe_nofault [OF Suc.prems(1,2), of "b = NamedFifo"] Suc.prems(3)
  obtain w' where n: "Notify b w = (Returns CHIP_NO_ERROR, w')" and "faults w' = []" "pipe_opened w'"
    by (auto simp: Notify_def)
  with Suc.IH [of w'] Suc.prems(3) show ?case
    by simp
qed

lemma Confirm_nofault:
  assumes "opened b w" and "faults w = []" and "readable w"
  shows "\<exists>w3. Confirm b w = (Returns (), w3) \<and> \<not> readable w3
           \<and> pending (mReadFD (wake w3)) w3 = 0"
proof (cases "b = Pipe \<or> b = NamedFifo")
  case True
  then have po: "pipe_opened w" and n: "Confirm b w = Confirm_pipe w"
    using assms(1) by (auto simp: opened_def Confirm_def)
  from Confirm_pipe_drains [OF po assms(2)] n pipe_readable show ?thesis
    by auto
next
  case False
  then have eo: "event_opened w" and n: "Confirm b w = Confirm_eventfd (b = ZephyrEventFd) w"
    using assms(1) by (cases b; simp add: opened_def Confirm_def)+
  from eo obtain c where c: "wake_counter w = Some c"
    by (rule event_openedD)
  from event_readable [OF eo] assms(3) c have "c \<noteq> 0"
    by auto
  with Confirm_eventfd_nofault [OF eo assms(2) c, of "b = ZephyrEventFd"] n
  obtain w3 where "Confirm b w = (Returns (), w3)" "event_opened w3" "wake_counter w3 = Some 0"
    by auto
  with event_readable [of w3] show ?thesis
    by auto
qed

lemma boot_pipe_run:
  "wf_world boot \<and> fst (Open Pipe boot) = Returns CHIP_NO_ERROR
   \<and> faults (snd (Open Pipe boot)) = []"
  by code_simp

section \<open>The counter of the eventfd builds\<close>

lemma notify_n_eventfd_counts:
  "event_opened w \<Longrightarrow> faults w = [] \<Longrightarrow> wake_counter w = Some (of_nat k) \<Longrightarrow>
   k + n < 2 ^ 64 - 1 \<Longrightarrow> b = EventFd \<or> b = ZephyrEventFd \<Longrightarrow>
     \<exists>w2. notify_n b n w = Some w2 \<and> event_opened w2 \<and> faults w2 = []
          \<and> wake_counter w2 = Some (of_nat (k + n))"
proof (induction n arbitrary: w k)
  case 0
  then show ?case by simp
next
  case (Suc n)
  from Suc.prems(4) have k: "k < 2 ^ 64 - 2" and k64: "k < 2 ^ 64"
    by simp_all
  from unat_of_nat_64 [OF k64] k have small: "unat (of_nat k :: 64 word) < 2 ^ 64 - 2"
    by simp
  from Suc.prems(5) have n: "Notify b w = Notify_eventfd (b = ZephyrEventFd) w"
    by (auto simp: Notify_def)
  from Notify_eventfd_nofault [OF Suc.prems(1-3), of "b = ZephyrEventFd"] small n
  obtain w' where step: "Notify b w = (Returns CHIP_NO_ERROR, w')" and f: "faults w' = []"
    and eo: "event_opened w'" and c: "wake_counter w' = Some (of_nat (Suc k))"
    by auto
  from Suc.prems(4) have "Suc k + n < 2 ^ 64 - 1"
    by simp
  from Suc.IH [OF eo f c this Suc.prems(5)] step show ?case
    by simp
qed

lemma eventfd_run_from_zero:
  assumes "b = EventFd \<or> b = ZephyrEventFd" and "event_opened w1" and "faults w1 = []"
    and "wake_counter w1 = Some 0" and "N < 2 ^ 64 - 1"
  shows "\<exists>w2. notify_n b N w1 = Some w2 \<and> wake_counter w2 = Some (of_nat N)
              \<and> (0 < N \<longrightarrow>
                   (\<exists>w3 w4. Confirm b w2 = (Returns (), w3)
                      \<and> snd (fst (eventfd_fetch (if b = ZephyrEventFd then 0 else 8)
                                    (mReadFD (wake w2)) w2)) = of_nat N
                      \<and> trace w3 = trace w2 @ [EvRead (mReadFD (wake w2)) 8]
                      \<and> wake_counter w3 = Some 0
                      \<and> fst (ReadEvent (b = ZephyrEventFd) (mReadFD (wake w3)) w3) = Hang
                      \<and> Confirm b w3 = (Blocks, w4)
                      \<and> wake_counter w4 = Some 0 \<and> cur_errno w4 = cur_errno w2))"
proof -
  from assms(4) have c0': "wake_counter w1 = Some (of_nat 0)"
    by simp
  from notify_n_eventfd_counts [OF assms(2,3) c0' _ assms(1), of N] assms(5)
  obtain w2 where n: "notify_n b N w1 = Some w2" and eo2: "event_opened w2"
    and f2: "faults w2 = []" and c2: "wake_counter w2 = Some (of_nat N)"
    by auto
  from assms(1) have cf: "Confirm b w = Confirm_eventfd (b = ZephyrEventFd) w" for w
    by (auto simp: Confirm_def)
  have "\<exists>w3 w4. Confirm b w2 = (Returns (), w3)
          \<and> snd (fst (eventfd_fetch (if b = ZephyrEventFd then 0 else 8)
                        (mReadFD (wake w2)) w2)) = of_nat N
          \<and> trace w3 = trace w2 @ [EvRead (mReadFD (wake w2)) 8]
          \<and> wake_counter w3 = Some 0
          \<and> fst (ReadEvent (b = ZephyrEventFd) (mReadFD (wake w3)) w3) = Hang
          \<and> Confirm b w3 = (Blocks, w4)
          \<and> wake_counter w4 = Some 0 \<and> cur_errno w4 = cur_errno w2" if "0 < N"
  proof -
    from that assms(5) unat_of_nat_64 [of N] have nz: "(of_nat N :: 64 word) \<noteq> 0"
      by (auto simp: unat_eq_0 [symmetric] simp del: unat_eq_0)
    from Confirm_eventfd_nofault [OF eo2 f2 c2, of "b = ZephyrEventFd"] nz cf
    obtain w3 where a: "Confirm b w2 = (Returns (), w3)" and f3: "faults w3 = []"
      and eo3: "event_opened w3" and c3: "wake_counter w3 = Some 0"
      and t3: "trace w3 = trace w2 @ [EvRead (mReadFD (wake w2)) 8]"
      and e3: "cur_errno w3 = cur_errno w2"
      and v: "snd (fst (eventfd_fetch (if b = ZephyrEventFd then 0 else 8)
                        (mReadFD (wake w2)) w2)) = of_nat N"
      by auto
    from Confirm_eventfd_nofault [OF eo3 f3 c3, of "b = ZephyrEventFd"] cf
    obtain w4 where "Confirm b w3 = (Blocks, w4)" "wake_counter w4 = Some 0"
      "cur_errno w4 = cur_errno w3"
      and "fst (ReadEvent (b = ZephyrEventFd) (mReadFD (wake w3)) w3) = Hang"
      by (auto simp: ReadEvent_def)
    with a c3 t3 e3 v show ?thesis
      by auto
  qed
  with n c2 show ?thesis
    by blast
qed

lemma boot_eventfd_run:
  "fst (Open EventFd boot) = Returns CHIP_NO_ERROR
   \<and> faults (snd (Open EventFd boot)) = []"
  by code_simp

section \<open>Where Notify returns, and where it waits\<close>

lemma environment_keeps: "keeps_channel w (w\<lparr>faults := fs, cur_errno := e\<rparr>)"
  by (simp add: keeps_channel_def fd_lookup_def)

lemma reachable_opened: "reachable b w \<Longrightarrow> opened b w"
proof (induction rule: reachable.induct)
  case (after_Open w0 w)
  then show ?case
    by (rule Open_opened)
next
  case (after_Notify w r w')
  show ?case
  proof (cases "b = Pipe \<or> b = NamedFifo")
    case True
    with after_Notify have "pipe_opened w" "Notify_pipe (b = NamedFifo) w = (Returns r, w')"
      by (auto simp: opened_def Notify_def)
    from Notify_pipe_keeps [OF this] after_Notify.IH show ?thesis
      by (rule keeps_opened)
  next
    case False
    with after_Notify.hyps(2) have "Notify_eventfd (b = ZephyrEventFd) w = (Returns r, w')"
      by (cases b) (auto simp: Notify_def)
    from Notify_eventfd_keeps [OF this] after_Notify.IH show ?thesis
      by (rule keeps_opened)
  qed
next
  case (after_Confirm w w')
  show ?case
  proof (cases "b = Pipe \<or> b = NamedFifo")
    case True
    with after_Confirm have "w' = snd (Confirm_pipe w)"
      by (auto simp: Confirm_def)
    with Confirm_pipe_keeps [of w] after_Confirm.IH show ?thesis
      by (simp add: keeps_opened)
  next
    case False
    with after_Confirm.hyps(2) have "Confirm_eventfd (b = ZephyrEventFd) w = (Returns (), w')"
      by (cases b) (auto simp: Confirm_def)
    from Confirm_eventfd_keeps [OF this] after_Confirm.IH show ?thesis
      by (rule keeps_opened)
  qed
next
  case (environment w fs e)
  from environment_keeps environment.IH show ?case
    by (rule keeps_opened)
qed

lemma sys_write_nonblock:
  assumes "fd_lookup w fd = Some (OpenFile t True)" and "sys_write fd n w = (x, w')"
  shows "x \<noteq> Hang"
proof -
  obtain f w1 where enter: "sys_enter (EvWrite fd n) w = (f, w1)"
    by (cases "sys_enter (EvWrite fd n) w") auto
  from assms enter sys_enter_lookup [OF enter, of fd] show ?thesis
    by (auto simp: sys_write_def sys_fail_def split: option.splits vnode.splits if_splits)
qed

lemma WriteEvent_room:
  assumes "event_opened w" and "wake_counter w = Some c" and "unat c < 2 ^ 64 - 2"
    and "WriteEvent z (mReadFD (wake w)) w = (x, w')"
  shows "x \<noteq> Hang"
proof -
  from assms(1) obtain i where r: "fd_lookup w (mReadFD (wake w)) = Some (OpenFile (EventCounter i) False)"
    and i: "i < length (counters w)" and cnt: "wake_counter w = Some (counters w ! i)"
    by (rule event_openedD)
  from cnt assms(2) have c: "counters w ! i = c" by simp
  obtain f w1 where enter: "sys_enter (EvWrite (mReadFD (wake w)) 8) w = (f, w1)"
    by (cases "sys_enter (EvWrite (mReadFD (wake w)) 8) w") auto
  have one: "unat (1 :: 64 word) = 1"
    by simp
  from assms(3,4) enter sys_enter_lookup [OF enter, of "mReadFD (wake w)"]
    sys_enter_fields [OF enter] r i c one
  show ?thesis
    by (auto simp: WriteEvent_def eventfd_add_def sys_fail_def split: option.splits if_splits)
qed

lemma Notify_pipe_trace:
  "length (trace (snd (Notify_pipe uf w))) \<le> length (trace w) + 4"
  by (auto simp: Notify_pipe_def ChipLogError_def split: prod.splits sysret.splits
      dest!: sys_write_frameD sys_open_frameD sys_close_frameD)

lemma Notify_eventfd_trace:
  "length (trace (snd (Notify_eventfd z w))) \<le> length (trace w) + 4"
  by (auto simp: Notify_eventfd_def split: prod.splits sysret.splits dest!: WriteEvent_frameD)

lemma Notify_pipe_returns:
  assumes "pipe_opened w"
  shows "(\<exists>r w'. Notify_pipe False w = (Returns r, w'))
         \<and> (\<not> first_write_hard_fails NamedFifo w
             \<longrightarrow> (\<exists>w'. Notify_pipe True w = (Returns CHIP_NO_ERROR, w')))"
proof -
  from assms obtain p where wr: "fd_lookup w (mWriteFD (wake w)) = Some (OpenFile (PipeWriteEnd p) True)"
    by (rule pipe_openedD)
  obtain x w1 where sw: "sys_write (mWriteFD (wake w)) 1 w = (x, w1)"
    by (cases "sys_write (mWriteFD (wake w)) 1 w") auto
  from sys_write_nonblock [OF wr sw] obtain r where x: "x = Ret r"
    by (cases x) auto
  from sw x show ?thesis
    by (auto simp: Notify_pipe_def first_write_hard_fails_def first_write_def)
qed

lemma Notify_eventfd_returns:
  assumes "event_opened w" and "wake_counter w = Some c" and "unat c < 2 ^ 64 - 2"
  shows "\<exists>r w'. Notify_eventfd z w = (Returns r, w')"
proof -
  obtain x w1 where we: "WriteEvent z (mReadFD (wake w)) w = (x, w1)"
    by (cases "WriteEvent z (mReadFD (wake w)) w") auto
  from WriteEvent_room [OF assms we] obtain r where x: "x = Ret r"
    by (cases x) auto
  from we x show ?thesis
    by (auto simp: Notify_eventfd_def)
qed

lemma fifo_blocking_run:
  "wf_world boot
   \<and> fst (Open NamedFifo boot) = Returns CHIP_NO_ERROR
   \<and> fst (Notify NamedFifo (snd (Open NamedFifo boot))) = Returns CHIP_NO_ERROR
   \<and> fst (Notify NamedFifo (snd (Notify NamedFifo (snd (Open NamedFifo boot)))))
       = Returns CHIP_NO_ERROR
   \<and> \<not> first_write_hard_fails NamedFifo (snd (Open NamedFifo boot))
   \<and> fst (Notify NamedFifo full_fifo_fault) = Blocks"
  by code_simp

lemma pipe_full_run:
  "fst (Open Pipe boot) = Returns CHIP_NO_ERROR
   \<and> fst (Notify Pipe (snd (Open Pipe boot))) = Returns CHIP_NO_ERROR
   \<and> fst (Notify Pipe (snd (Notify Pipe (snd (Open Pipe boot))))) = Returns CHIP_NO_ERROR"
  by code_simp

lemma reachable_first:
  assumes "wf_world w0" and "fst (Open b w0) = Returns CHIP_NO_ERROR"
  shows "reachable b (snd (Open b w0))"
proof -
  from assms(2) have "Open b w0 = (Returns CHIP_NO_ERROR, snd (Open b w0))"
    by (cases "Open b w0") simp
  with assms(1) show ?thesis
    by (rule after_Open)
qed

lemma reachable_next:
  assumes "reachable b w" and "fst (Notify b w) = Returns r"
  shows "reachable b (snd (Notify b w))"
proof -
  from assms(2) have "Notify b w = (Returns r, snd (Notify b w))"
    by (cases "Notify b w") simp
  with assms(1) show ?thesis
    by (rule after_Notify)
qed

lemma reachable_faults:
  assumes "reachable b w"
  shows "reachable b (w\<lparr>faults := fs\<rparr>)"
  using environment [OF assms, where fs = fs and e = "cur_errno w"] by simp

lemma reachable_notify_n:
  "reachable b w \<Longrightarrow> notify_n b n w = Some w2 \<Longrightarrow> reachable b w2"
proof (induction n arbitrary: w)
  case 0
  then show ?case by simp
next
  case (Suc n)
  from Suc.prems(2) obtain r w' where n: "Notify b w = (Returns r, w')"
    and rest: "notify_n b n w' = Some w2"
    by (auto split: prod.splits outcome.splits)
  from after_Notify [OF Suc.prems(1) n] rest show ?case
    by (rule Suc.IH)
qed

lemma eventfd_saturated:
  assumes "fst (Open EventFd boot) = Returns CHIP_NO_ERROR"
    and "faults (snd (Open EventFd boot)) = []" and "wf_world boot"
  shows "reachable EventFd (the (notify_n EventFd (2 ^ 64 - 2) (snd (Open EventFd boot))))
         \<and> wake_counter (the (notify_n EventFd (2 ^ 64 - 2) (snd (Open EventFd boot))))
             = Some (- 2)
         \<and> fst (Notify EventFd (the (notify_n EventFd (2 ^ 64 - 2) (snd (Open EventFd boot)))))
             = Blocks"
proof -
  let ?w1 = "snd (Open EventFd boot)"
  let ?N = "2 ^ 64 - 2 :: nat"
  from assms(1) have "Open_eventfd boot = (Returns CHIP_NO_ERROR, ?w1)"
    by (cases "Open EventFd boot") (simp add: Open_def)
  from Open_eventfd_opened [OF this] have eo: "event_opened ?w1"
    and c0: "wake_counter ?w1 = Some (of_nat 0)"
    by simp_all
  have "0 + ?N < 2 ^ 64 - 1"
    by simp
  from notify_n_eventfd_counts [OF eo assms(2) c0 this, of EventFd]
  obtain w2 where n: "notify_n EventFd ?N ?w1 = Some w2" and eo2: "event_opened w2"
    and f2: "faults w2 = []" and c2: "wake_counter w2 = Some (of_nat ?N)"
    by auto
  have full: "unat (of_nat ?N :: 64 word) = ?N"
    by (rule unat_of_nat_64) simp
  have "(of_nat ?N :: 64 word) = - 2"
    by simp
  with c2 have c2': "wake_counter w2 = Some (- 2)"
    by simp
  from Notify_eventfd_nofault [OF eo2 f2 c2, of False] full
  have "fst (Notify EventFd w2) = Blocks"
    by (auto simp: Notify_def)
  moreover from reachable_notify_n [OF reachable_first [OF assms(3,1)] n]
  have "reachable EventFd w2" .
  ultimately show ?thesis
    using n c2' by simp
qed

section \<open>Runs that end in a call that waits, and would-block outside the retry\<close>

lemma notify_n_then_blocks:
  "notify_n b n w = Some w' \<Longrightarrow> fst (Notify b w') = Blocks \<Longrightarrow> notify_n b (Suc n) w = None"
proof (induction n arbitrary: w)
  case 0
  then show ?case
    by (cases "Notify b w") auto
next
  case (Suc n)
  from Suc.prems(1) obtain r w1 where n: "Notify b w = (Returns r, w1)"
    and rest: "notify_n b n w1 = Some w'"
    by (auto split: prod.splits outcome.splits)
  from Suc.IH [OF rest Suc.prems(2)] have "notify_n b (Suc n) w1 = None" .
  with n show ?case
    by simp
qed

lemma eventfd_run_to_maximum:
  assumes "fst (Open EventFd boot) = Returns CHIP_NO_ERROR"
    and "faults (snd (Open EventFd boot)) = []"
  shows "\<exists>w2. notify_n EventFd (2 ^ 64 - 2) (snd (Open EventFd boot)) = Some w2
              \<and> wake_counter w2 = Some (- 2) \<and> readable w2
              \<and> fst (Notify EventFd w2) = Blocks"
proof -
  let ?w1 = "snd (Open EventFd boot)"
  let ?N = "2 ^ 64 - 2 :: nat"
  from assms(1) have "Open_eventfd boot = (Returns CHIP_NO_ERROR, ?w1)"
    by (cases "Open EventFd boot") (simp add: Open_def)
  from Open_eventfd_opened [OF this] have eo: "event_opened ?w1"
    and c0: "wake_counter ?w1 = Some (of_nat 0)"
    by simp_all
  have "0 + ?N < 2 ^ 64 - 1"
    by simp
  from notify_n_eventfd_counts [OF eo assms(2) c0 this, of EventFd]
  obtain w2 where n: "notify_n EventFd ?N ?w1 = Some w2" and eo2: "event_opened w2"
    and f2: "faults w2 = []" and c2: "wake_counter w2 = Some (of_nat ?N)"
    by auto
  have full: "unat (of_nat ?N :: 64 word) = ?N"
    by (rule unat_of_nat_64) simp
  have m2: "(of_nat ?N :: 64 word) = - 2"
    by simp
  from Notify_eventfd_nofault [OF eo2 f2 c2, of False] full
  have "fst (Notify EventFd w2) = Blocks"
    by (auto simp: Notify_def)
  moreover have "readable w2"
    using event_readable [OF eo2] c2 m2 by simp
  ultimately show ?thesis
    using n c2 m2 by simp
qed



section \<open>Close, and what Notify and Confirm leave alone\<close>

text \<open>
  C8. In every build and every state, also when a system call fails, \<open>Notify\<close> and
  \<open>Confirm\<close> leave the three fields of the handle (\<open>mReadFD\<close>, \<open>mWriteFD\<close>,
  \<open>mReadWatch\<close>) and the watches of the multiplexer as they were; and \<open>Confirm\<close> has no
  error to hand to its caller: it returns nothing, or waits in its read, and never ends
  the process.
\<close>

theorem Notify_Confirm_leave_handle:
  "wake (snd (Notify b w)) = wake w \<and> wake (snd (Confirm b w)) = wake w
   \<and> watches (snd (Notify b w)) = watches w \<and> watches (snd (Confirm b w)) = watches w
   \<and> (fst (Confirm b w) = Returns () \<or> fst (Confirm b w) = Blocks)"
  using Notify_pipe_frame [of False w] Notify_pipe_frame [of True w]
    Notify_eventfd_frame [of False w] Notify_eventfd_frame [of True w]
    Confirm_pipe_frame [of w] Confirm_eventfd_frame [of False w] Confirm_eventfd_frame [of True w]
  by (cases b) (simp_all add: Notify_def Confirm_def)

text \<open>
  C6. \<open>Close\<close> stops the watch and closes \<open>mReadFD\<close> and, in the pipe and FIFO builds,
  \<open>mWriteFD\<close>. If the first close does not return 0 the process ends there
  (\<open>VerifyOrDie\<close>), and likewise at the second; no failure is returned. If every close
  returns 0, \<open>Close\<close> returns and the descriptor fields it closed hold \<open>-1\<close>.
\<close>

theorem Close_fatal_or_reset:
  "(case StopWatchingSocket (mReadWatch (wake w)) w of
      (token, w1) \<Rightarrow>
        (case sys_close (mReadFD (wake w)) (w1\<lparr>wake := (wake w1)\<lparr>mReadWatch := token\<rparr>\<rparr>) of
           (r1, w2) \<Rightarrow>
             if b = Pipe \<or> b = NamedFifo then
               (case sys_close (mWriteFD (wake w)) w2 of
                  (r2, w3) \<Rightarrow>
                    if r1 \<noteq> 0 then Close b w = (Aborts, w2)
                    else if r2 \<noteq> 0 then Close b w = (Aborts, w3)
                    else fst (Close b w) = Returns ()
                         \<and> mReadFD (wake (snd (Close b w))) = - 1
                         \<and> mWriteFD (wake (snd (Close b w))) = - 1)
             else
               if r1 \<noteq> 0 then Close b w = (Aborts, w2)
               else fst (Close b w) = Returns () \<and> mReadFD (wake (snd (Close b w))) = - 1))"
proof -
  obtain t' w1 where stop: "StopWatchingSocket (mReadWatch (wake w)) w = (t', w1)"
    by (cases "StopWatchingSocket (mReadWatch (wake w)) w") auto
  note s = StopWatchingSocket_frame [OF stop]
  let ?w1 = "w1\<lparr>wake := (wake w1)\<lparr>mReadWatch := t'\<rparr>\<rparr>"
  obtain r1 w2 where c1: "sys_close (mReadFD (wake w)) ?w1 = (r1, w2)"
    by (cases "sys_close (mReadFD (wake w)) ?w1") auto
  note f1 = sys_close_frameD [OF c1]
  obtain r2 w3 where c2: "sys_close (mWriteFD (wake w)) w2 = (r2, w3)"
    by (cases "sys_close (mWriteFD (wake w)) w2") auto
  note f2 = sys_close_frameD [OF c2]
  have pipe: "Close_pipe w =
      (if r1 \<noteq> 0 then (Aborts, w2)
       else if r2 \<noteq> 0 then (Aborts, w3)
       else (Returns (), w3\<lparr>wake := (wake w3)\<lparr>mReadFD := - 1, mWriteFD := - 1\<rparr>\<rparr>))"
    using stop c1 c2 s f1 by (simp add: Close_pipe_def)
  have event: "Close_eventfd w =
      (if r1 \<noteq> 0 then (Aborts, w2) else (Returns (), w2\<lparr>wake := (wake w2)\<lparr>mReadFD := - 1\<rparr>\<rparr>))"
    using stop c1 s by (simp add: Close_eventfd_def)
  show ?thesis
    using stop c1 c2 pipe event by (cases b) (simp_all add: Close_def)
qed

text \<open>
  C7. In every build and every state, the calls \<open>Close\<close> adds to the trace are
  \<open>StopWatchingSocket\<close> on the handle's token first, and after it one or two \<open>close\<close>
  calls on the handle's descriptors and nothing else; the token no longer stands for a
  watch when \<open>Close\<close> is over, as from the first \<open>close\<close> on.
\<close>

theorem Close_stops_watching_first:
  "\<exists>closes. trace (snd (Close b w)) = trace w @ EvStopWatchingSocket (mReadWatch (wake w)) # closes
     \<and> closes \<noteq> []
     \<and> set closes \<subseteq> {EvClose (mReadFD (wake w)), EvClose (mWriteFD (wake w))}
     \<and> watch_of (snd (Close b w)) (mReadWatch (wake w)) = None
     \<and> mReadWatch (wake (snd (Close b w))) = None"
proof -
  obtain t' w1 where stop: "StopWatchingSocket (mReadWatch (wake w)) w = (t', w1)"
    by (cases "StopWatchingSocket (mReadWatch (wake w)) w") auto
  note s = StopWatchingSocket_frame [OF stop]
  let ?w1 = "w1\<lparr>wake := (wake w1)\<lparr>mReadWatch := t'\<rparr>\<rparr>"
  obtain r1 w2 where c1: "sys_close (mReadFD (wake w)) ?w1 = (r1, w2)"
    by (cases "sys_close (mReadFD (wake w)) ?w1") auto
  note f1 = sys_close_frameD [OF c1]
  obtain r2 w3 where c2: "sys_close (mWriteFD (wake w)) w2 = (r2, w3)"
    by (cases "sys_close (mWriteFD (wake w)) w2") auto
  note f2 = sys_close_frameD [OF c2]
  have w1: "watch_of ?w1 (mReadWatch (wake w)) = None"
    using s watch_of_same [of ?w1 w1] by simp
  have w2: "watch_of w2 (mReadWatch (wake w)) = None"
    using w1 f1 watch_of_same [of w2 ?w1] by simp
  have w3: "watch_of w3 (mReadWatch (wake w)) = None"
    using w2 f2 watch_of_same [of w3 w2] by simp
  show ?thesis
  proof (cases "b = Pipe \<or> b = NamedFifo")
    case True
    then have cl: "Close b w = Close_pipe w"
      by (auto simp: Close_def)
    show ?thesis
    proof (cases "r1 = 0")
      case False
      with stop c1 s have "Close_pipe w = (Aborts, w2)"
        by (simp add: Close_pipe_def)
      with cl f1 s w2 show ?thesis
        by (intro exI [of _ "[EvClose (mReadFD (wake w))]"]) simp
    next
      case r1: True
      show ?thesis
      proof (cases "r2 = 0")
        case False
        with stop c1 c2 s f1 r1 have "Close_pipe w = (Aborts, w3)"
          by (simp add: Close_pipe_def)
        with cl f1 f2 s w3 show ?thesis
          by (intro exI [of _ "[EvClose (mReadFD (wake w)), EvClose (mWriteFD (wake w))]"]) simp
      next
        case True
        with stop c1 c2 s f1 r1
        have "Close_pipe w = (Returns (), w3\<lparr>wake := (wake w3)\<lparr>mReadFD := - 1, mWriteFD := - 1\<rparr>\<rparr>)"
          by (simp add: Close_pipe_def)
        with cl f1 f2 s w3
          watch_of_same [of "w3\<lparr>wake := (wake w3)\<lparr>mReadFD := - 1, mWriteFD := - 1\<rparr>\<rparr>" w3]
        show ?thesis
          by (intro exI [of _ "[EvClose (mReadFD (wake w)), EvClose (mWriteFD (wake w))]"]) simp
      qed
    qed
  next
    case False
    then have cl: "Close b w = Close_eventfd w"
      by (cases b) (auto simp: Close_def)
    show ?thesis
    proof (cases "r1 = 0")
      case False
      with stop c1 s have "Close_eventfd w = (Aborts, w2)"
        by (simp add: Close_eventfd_def)
      with cl f1 s w2 show ?thesis
        by (intro exI [of _ "[EvClose (mReadFD (wake w))]"]) simp
    next
      case True
      with stop c1 s have "Close_eventfd w = (Returns (), w2\<lparr>wake := (wake w2)\<lparr>mReadFD := - 1\<rparr>\<rparr>)"
        by (simp add: Close_eventfd_def)
      with cl f1 s w2 watch_of_same [of "w2\<lparr>wake := (wake w2)\<lparr>mReadFD := - 1\<rparr>\<rparr>" w2]
      show ?thesis
        by (intro exI [of _ "[EvClose (mReadFD (wake w))]"]) simp
    qed
  qed
qed

section \<open>Notify: would-block, and the retry of the FIFO build\<close>


lemma fifo_fault_run:
  "fst (sys_write (mWriteFD (wake fifo_fault)) 1 fifo_fault) = Ret (- 1)
   \<and> cur_errno (snd (sys_write (mWriteFD (wake fifo_fault)) 1 fifo_fault)) = EBADF
   \<and> fst (sys_open kChipEventFifoPath {O_WRONLY}
            (snd (sys_write (mWriteFD (wake fifo_fault)) 1 fifo_fault))) = Ret 2
   \<and> fst (sys_write 2 1 (snd (sys_open kChipEventFifoPath {O_WRONLY}
            (snd (sys_write (mWriteFD (wake fifo_fault)) 1 fifo_fault))))) = Ret 1"
  by code_simp




text \<open>
  C4. In the FIFO build, when the first write of \<open>Notify\<close> fails with an error other
  than would-block, \<open>Notify\<close> opens the FIFO path for writing. If that open fails,
  \<open>Notify\<close> returns the POSIX error in \<open>errno\<close>, after two calls. Otherwise the descriptor
  is a fresh one, one byte is written to it once, and it is closed; \<open>Notify\<close> returns
  \<open>CHIP_NO_ERROR\<close> when that write succeeded and the POSIX error in \<open>errno\<close> when it
  failed, after exactly four calls. (The open and the second write are blocking calls:
  where one of them does not return, neither does \<open>Notify\<close>.)
\<close>

theorem fifo_retry_once:
  assumes "sys_write (mWriteFD (wake w)) 1 w = (Ret r, w1)" and "r < 0"
    and "cur_errno w1 \<noteq> EAGAIN" and "cur_errno w1 \<noteq> EWOULDBLOCK"
  shows
   "(case sys_open kChipEventFifoPath {O_WRONLY} w1 of
       (Hang, w2) \<Rightarrow> Notify NamedFifo w = (Blocks, w2)
     | (Ret WriteFD, w2) \<Rightarrow>
         if WriteFD = - 1 then
           fst (Notify NamedFifo w) = Returns (CHIP_ERROR_POSIX (cur_errno w2))
           \<and> trace (snd (Notify NamedFifo w)) =
               trace w @ [EvWrite (mWriteFD (wake w)) 1, EvOpen kChipEventFifoPath {O_WRONLY}]
         else
           fd_lookup w1 WriteFD = None
           \<and> (case sys_write WriteFD 1 w2 of
                 (Hang, w3) \<Rightarrow> Notify NamedFifo w = (Blocks, w3)
               | (Ret r2, w3) \<Rightarrow>
                   trace (snd (Notify NamedFifo w)) =
                     trace w @ [EvWrite (mWriteFD (wake w)) 1, EvOpen kChipEventFifoPath {O_WRONLY},
                                EvWrite WriteFD 1, EvClose WriteFD]
                   \<and> fd_lookup (snd (Notify NamedFifo w)) WriteFD = None
                   \<and> (if r2 < 0
                      then fst (Notify NamedFifo w) =
                             Returns (CHIP_ERROR_POSIX (cur_errno (snd (sys_close WriteFD w3))))
                      else fst (Notify NamedFifo w) = Returns CHIP_NO_ERROR)))"
proof -
  note f1 = sys_write_frameD [OF assms(1)]
  obtain y w2 where op: "sys_open kChipEventFifoPath {O_WRONLY} w1 = (y, w2)"
    by (cases "sys_open kChipEventFifoPath {O_WRONLY} w1") auto
  note f2 = sys_open_frameD [OF op]
  show ?thesis
  proof (cases y)
    case Hang
    with assms op show ?thesis
      by (simp add: Notify_def Notify_pipe_def)
  next
    case (Ret fd)
    note fd = this
    show ?thesis
    proof (cases "fd = - 1")
      case True
      with assms op fd f1 f2 show ?thesis
        by (simp add: Notify_def Notify_pipe_def ChipLogError_def)
    next
      case False
      from sys_open_fresh [OF op [unfolded fd] False] have fresh: "fd_lookup w1 fd = None"
        by simp
      obtain z w3 where wr2: "sys_write fd 1 w2 = (z, w3)"
        by (cases "sys_write fd 1 w2") auto
      note f3 = sys_write_frameD [OF wr2]
      obtain rc w4 where cl: "sys_close fd w3 = (rc, w4)"
        by (cases "sys_close fd w3") auto
      note f4 = sys_close_frameD [OF cl]
      have closed: "fd_lookup w4 fd = None"
        using sys_close_closed [of fd w3] cl by simp
      have closed': "fd_lookup (ChipLogError msg w4) fd = None" for msg
        using closed fd_lookup_same [of "ChipLogError msg w4" w4 fd] by (simp add: ChipLogError_def)
      show ?thesis
      proof (cases z)
        case Hang
        with assms op fd False fresh wr2 show ?thesis
          by (simp add: Notify_def Notify_pipe_def)
      next
        case (Ret r2)
        with assms op fd False fresh wr2 cl f1 f2 f3 f4 closed closed' show ?thesis
          by (simp add: Notify_def Notify_pipe_def ChipLogError_def)
      qed
    qed
  qed
qed

theorem fifo_retry_once_witness:
  "fst (sys_write (mWriteFD (wake fifo_fault)) 1 fifo_fault) = Ret (- 1)
   \<and> cur_errno (snd (sys_write (mWriteFD (wake fifo_fault)) 1 fifo_fault)) = EBADF
   \<and> fst (Notify NamedFifo fifo_fault) = Returns CHIP_NO_ERROR
   \<and> trace (snd (Notify NamedFifo fifo_fault)) =
       trace fifo_fault @ [EvWrite (mWriteFD (wake fifo_fault)) 1,
                           EvOpen kChipEventFifoPath {O_WRONLY}, EvWrite 2 1, EvClose 2]
   \<and> fd_lookup (snd (Notify NamedFifo fifo_fault)) 2 = None"
proof -
  let ?w1 = "snd (sys_write (mWriteFD (wake fifo_fault)) 1 fifo_fault)"
  note run = fifo_fault_run
  from run have wr: "sys_write (mWriteFD (wake fifo_fault)) 1 fifo_fault = (Ret (- 1), ?w1)"
    by (cases "sys_write (mWriteFD (wake fifo_fault)) 1 fifo_fault") simp
  from run have e1: "cur_errno ?w1 \<noteq> EAGAIN" and e2: "cur_errno ?w1 \<noteq> EWOULDBLOCK"
    by simp_all
  obtain w2 where op: "sys_open kChipEventFifoPath {O_WRONLY} ?w1 = (Ret 2, w2)"
    using run by (cases "sys_open kChipEventFifoPath {O_WRONLY} ?w1") simp
  obtain w3 where wr2: "sys_write 2 1 w2 = (Ret 1, w3)"
    using run op by (cases "sys_write 2 1 w2") simp
  from fifo_retry_once [OF wr _ e1 e2] op wr2 run show ?thesis
    by simp
qed

section \<open>Coalescing: any number of Notify, one Confirm\<close>

lemma full_pipe_pending: "faults full_pipe = [] \<and> pending (mReadFD (wake full_pipe)) full_pipe = 2"
  by code_simp

text \<open>
  Where the calls of \<open>Notify\<close> return, the channel coalesces. In every build, after a
  successful \<open>Open\<close> and with no injected fault, \<open>N \<ge> 1\<close> calls of \<open>Notify\<close> with no
  \<open>Confirm\<close> in between all return and leave the read descriptor readable, and one
  \<open>Confirm\<close> then returns and leaves it not readable: for every \<open>N\<close> in the pipe and FIFO
  builds, and for \<open>N\<close> below \<open>2^64 - 1\<close> in the eventfd builds. In the pipe and FIFO
  builds, in every reachable state the read loop of \<open>Confirm\<close> ends with no byte pending,
  however many there were.
\<close>

theorem notify_then_confirm:
  assumes "wf_world w0" and "Open b w0 = (Returns CHIP_NO_ERROR, w1)" and "faults w1 = []"
    and "1 \<le> N" and "b = Pipe \<or> b = NamedFifo \<or> N < 2 ^ 64 - 1"
  shows "(\<exists>w2 w3. notify_n b N w1 = Some w2 \<and> readable w2
              \<and> Confirm b w2 = (Returns (), w3) \<and> \<not> readable w3
              \<and> pending (mReadFD (wake w3)) w3 = 0)
         \<and> (\<forall>w. (b = Pipe \<or> b = NamedFifo) \<and> reachable b w \<and> faults w = [] \<longrightarrow>
               (\<exists>w'. Confirm b w = (Returns (), w') \<and> pending (mReadFD (wake w')) w' = 0
                      \<and> \<not> readable w'))"
proof -
  note op = Open_opened [OF assms(1,2)]
  have run: "\<exists>w2. notify_n b N w1 = Some w2"
  proof (cases "b = Pipe \<or> b = NamedFifo")
    case True
    with op notify_n_pipe_total [OF _ assms(3) True, of N] show ?thesis
      by (auto simp: opened_def)
  next
    case False
    then have ev: "b = EventFd \<or> b = ZephyrEventFd"
      by (cases b) simp_all
    from False assms(5) have small: "N < 2 ^ 64 - 1"
      by simp
    from ev assms(2) have "Open_eventfd w0 = (Returns CHIP_NO_ERROR, w1)"
      by (auto simp: Open_def)
    from Open_eventfd_opened [OF this] have "event_opened w1" and "wake_counter w1 = Some 0"
      by simp_all
    from eventfd_run_from_zero [OF ev this(1) assms(3) this(2) small] show ?thesis
      by blast
  qed
  then obtain w2 where n: "notify_n b N w1 = Some w2" ..
  from notify_n_nofault [OF op assms(3) n] assms(4)
  have "opened b w2" "faults w2 = []" "readable w2"
    by simp_all
  with Confirm_nofault [of b w2] n
  have "\<exists>w2 w3. notify_n b N w1 = Some w2 \<and> readable w2
              \<and> Confirm b w2 = (Returns (), w3) \<and> \<not> readable w3
              \<and> pending (mReadFD (wake w3)) w3 = 0"
    by auto
  moreover have "\<exists>w'. Confirm b w = (Returns (), w') \<and> pending (mReadFD (wake w')) w' = 0
                      \<and> \<not> readable w'"
    if "(b = Pipe \<or> b = NamedFifo) \<and> reachable b w \<and> faults w = []" for w
  proof -
    from that reachable_opened [of b w] have po: "pipe_opened w" and f: "faults w = []"
      and c: "Confirm b w = Confirm_pipe w"
      by (auto simp: opened_def Confirm_def)
    from Confirm_pipe_drains [OF po f] c pipe_readable show ?thesis
      by auto
  qed
  ultimately show ?thesis
    by blast
qed

theorem notify_then_confirm_witness:
  "wf_world boot \<and> fst (Open Pipe boot) = Returns CHIP_NO_ERROR
   \<and> faults (snd (Open Pipe boot)) = [] \<and> (1 :: nat) \<le> 3
   \<and> notify_n Pipe 3 (snd (Open Pipe boot)) \<noteq> None
   \<and> readable (the (notify_n Pipe 3 (snd (Open Pipe boot))))
   \<and> fst (Confirm Pipe (the (notify_n Pipe 3 (snd (Open Pipe boot))))) = Returns ()
   \<and> \<not> readable (snd (Confirm Pipe (the (notify_n Pipe 3 (snd (Open Pipe boot))))))
   \<and> fst (Open EventFd boot) = Returns CHIP_NO_ERROR
   \<and> faults (snd (Open EventFd boot)) = [] \<and> (3 :: nat) < 2 ^ 64 - 1
   \<and> notify_n EventFd 3 (snd (Open EventFd boot)) \<noteq> None
   \<and> readable (the (notify_n EventFd 3 (snd (Open EventFd boot))))
   \<and> fst (Confirm EventFd (the (notify_n EventFd 3 (snd (Open EventFd boot))))) = Returns ()
   \<and> \<not> readable (snd (Confirm EventFd (the (notify_n EventFd 3 (snd (Open EventFd boot))))))
   \<and> reachable Pipe full_pipe \<and> faults full_pipe = []
   \<and> pending (mReadFD (wake full_pipe)) full_pipe = 2
   \<and> fst (Confirm Pipe full_pipe) = Returns ()
   \<and> pending (mReadFD (wake (snd (Confirm Pipe full_pipe)))) (snd (Confirm Pipe full_pipe)) = 0"
proof -
  note run = boot_pipe_run and pipe = pipe_full_run and full = full_pipe_pending
    and event = boot_eventfd_run
  from run have op: "Open Pipe boot = (Returns CHIP_NO_ERROR, snd (Open Pipe boot))"
    by (cases "Open Pipe boot") simp
  from event have oe: "Open EventFd boot = (Returns CHIP_NO_ERROR, snd (Open EventFd boot))"
    by (cases "Open EventFd boot") simp
  from run have wf: "wf_world boot" and nf: "faults (snd (Open Pipe boot)) = []"
    and po: "fst (Open Pipe boot) = Returns CHIP_NO_ERROR"
    by simp_all
  from event have ne: "faults (snd (Open EventFd boot)) = []"
    by simp
  from pipe have p1: "fst (Notify Pipe (snd (Open Pipe boot))) = Returns CHIP_NO_ERROR"
    and p2: "fst (Notify Pipe (snd (Notify Pipe (snd (Open Pipe boot))))) = Returns CHIP_NO_ERROR"
    by simp_all
  from reachable_next [OF reachable_next [OF reachable_first [OF wf po] p1] p2]
  have rp: "reachable Pipe full_pipe"
    by (simp add: full_pipe_def)
  have three: "(1 :: nat) \<le> 3" and small: "(3 :: nat) < 2 ^ 64 - 1"
    by simp_all
  note inst = notify_then_confirm [OF wf op nf three]
  from inst obtain w2 w3 where n: "notify_n Pipe 3 (snd (Open Pipe boot)) = Some w2"
    and "readable w2" "Confirm Pipe w2 = (Returns (), w3)" "\<not> readable w3"
    by blast
  then have a: "notify_n Pipe 3 (snd (Open Pipe boot)) \<noteq> None
      \<and> readable (the (notify_n Pipe 3 (snd (Open Pipe boot))))
      \<and> fst (Confirm Pipe (the (notify_n Pipe 3 (snd (Open Pipe boot))))) = Returns ()
      \<and> \<not> readable (snd (Confirm Pipe (the (notify_n Pipe 3 (snd (Open Pipe boot))))))"
    by simp
  from notify_then_confirm [OF wf oe ne three] small
  obtain v2 v3 where "notify_n EventFd 3 (snd (Open EventFd boot)) = Some v2"
    and "readable v2" "Confirm EventFd v2 = (Returns (), v3)" "\<not> readable v3"
    by blast
  then have b: "notify_n EventFd 3 (snd (Open EventFd boot)) \<noteq> None
      \<and> readable (the (notify_n EventFd 3 (snd (Open EventFd boot))))
      \<and> fst (Confirm EventFd (the (notify_n EventFd 3 (snd (Open EventFd boot))))) = Returns ()
      \<and> \<not> readable (snd (Confirm EventFd (the (notify_n EventFd 3 (snd (Open EventFd boot))))))"
    by simp
  from inst rp full
  obtain w' where "Confirm Pipe full_pipe = (Returns (), w')" "pending (mReadFD (wake w')) w' = 0"
    by blast
  then have c: "fst (Confirm Pipe full_pipe) = Returns ()
      \<and> pending (mReadFD (wake (snd (Confirm Pipe full_pipe)))) (snd (Confirm Pipe full_pipe)) = 0"
    by simp
  from a b c run event rp full three small show ?thesis
    by simp
qed

text \<open>
  C1. The specification asks, for every build and every \<open>N \<ge> 1\<close>: after a successful
  \<open>Open\<close>, \<open>N\<close> calls of \<open>Notify\<close> with no \<open>Confirm\<close> in between leave the channel
  readable, and one \<open>Confirm\<close> then leaves it not readable. The eventfd build does not
  get there for \<open>N = 2^64 - 1\<close>: run from \<open>boot\<close> with no injected fault, \<open>Open\<close>
  succeeds and the first
  \<open>2^64 - 2\<close> calls of \<open>Notify\<close> return and leave the descriptor readable, with the counter
  at its maximum; the next call of \<open>Notify\<close> does not return, so the run of \<open>2^64 - 1\<close>
  calls has no end state. The descriptor comes from \<open>eventfd(0, 0)\<close>, without
  \<open>EFD_NONBLOCK\<close>: its write waits where a non-blocking one would report \<open>EAGAIN\<close>, which
  \<open>Notify\<close> tests for and answers with \<open>CHIP_NO_ERROR\<close>.
\<close>

theorem Notify_run_waits_at_maximum:
  "fst (Open EventFd boot) = Returns CHIP_NO_ERROR
   \<and> faults (snd (Open EventFd boot)) = []
   \<and> notify_n EventFd (2 ^ 64 - 2) (snd (Open EventFd boot)) \<noteq> None
   \<and> wake_counter (the (notify_n EventFd (2 ^ 64 - 2) (snd (Open EventFd boot)))) = Some (- 2)
   \<and> readable (the (notify_n EventFd (2 ^ 64 - 2) (snd (Open EventFd boot))))
   \<and> fst (Notify EventFd (the (notify_n EventFd (2 ^ 64 - 2) (snd (Open EventFd boot)))))
       = Blocks
   \<and> notify_n EventFd (2 ^ 64 - 1) (snd (Open EventFd boot)) = None"
proof -
  from boot_eventfd_run have o: "fst (Open EventFd boot) = Returns CHIP_NO_ERROR"
    and f: "faults (snd (Open EventFd boot)) = []"
    by simp_all
  from eventfd_run_to_maximum [OF o f]
  obtain w2 where n: "notify_n EventFd (2 ^ 64 - 2) (snd (Open EventFd boot)) = Some w2"
    and c: "wake_counter w2 = Some (- 2)" and r: "readable w2"
    and b: "fst (Notify EventFd w2) = Blocks"
    by blast
  have "(2 ^ 64 - 1 :: nat) = Suc (2 ^ 64 - 2)"
    by simp
  with notify_n_then_blocks [OF n b]
  have "notify_n EventFd (2 ^ 64 - 1) (snd (Open EventFd boot)) = None"
    by simp
  with o f n c r b show ?thesis
    by simp
qed

section \<open>The eventfd scenario\<close>

text \<open>
  The counter of the eventfd builds, step by step. A successful \<open>Open\<close> leaves the counter
  at 0; without injected faults, \<open>N\<close> calls of \<open>Notify\<close> (for any \<open>N\<close> below \<open>2^64 - 1\<close>) all
  return and leave the counter at \<open>N\<close>, one more per call; one \<open>Confirm\<close> then makes a
  single read, which fetches \<open>N\<close> and resets the counter to 0. The read of a second
  \<open>Confirm\<close> right after waits: neither it nor \<open>Confirm\<close> returns, the counter stays 0 and
  \<open>errno\<close> is not touched.
\<close>

theorem eventfd_counter_scenario:
  assumes "b = EventFd \<or> b = ZephyrEventFd" and "Open b w0 = (Returns CHIP_NO_ERROR, w1)"
    and "faults w1 = []" and "N < 2 ^ 64 - 1"
  shows "wake_counter w1 = Some 0
         \<and> (\<exists>w2. notify_n b N w1 = Some w2 \<and> wake_counter w2 = Some (of_nat N)
              \<and> (0 < N \<longrightarrow>
                   (\<exists>w3 w4. Confirm b w2 = (Returns (), w3)
                      \<and> snd (fst (eventfd_fetch (if b = ZephyrEventFd then 0 else 8)
                                    (mReadFD (wake w2)) w2)) = of_nat N
                      \<and> trace w3 = trace w2 @ [EvRead (mReadFD (wake w2)) 8]
                      \<and> wake_counter w3 = Some 0
                      \<and> fst (ReadEvent (b = ZephyrEventFd) (mReadFD (wake w3)) w3) = Hang
                      \<and> Confirm b w3 = (Blocks, w4)
                      \<and> wake_counter w4 = Some 0 \<and> cur_errno w4 = cur_errno w2)))"
proof -
  from assms(1,2) have op: "Open_eventfd w0 = (Returns CHIP_NO_ERROR, w1)"
    by (auto simp: Open_def)
  from Open_eventfd_opened [OF op] have eo: "event_opened w1" and c0: "wake_counter w1 = Some 0"
    by simp_all
  from eventfd_run_from_zero [OF assms(1) eo assms(3) c0 assms(4)] c0 show ?thesis
    by simp
qed

theorem eventfd_counter_scenario_witness:
  "fst (Open EventFd boot) = Returns CHIP_NO_ERROR
   \<and> faults (snd (Open EventFd boot)) = [] \<and> (3 :: nat) < 2 ^ 64 - 1
   \<and> wake_counter (snd (Open EventFd boot)) = Some 0
   \<and> wake_counter (the (notify_n EventFd 3 (snd (Open EventFd boot)))) = Some 3
   \<and> fst (Confirm EventFd (the (notify_n EventFd 3 (snd (Open EventFd boot))))) = Returns ()
   \<and> wake_counter (snd (Confirm EventFd (the (notify_n EventFd 3 (snd (Open EventFd boot))))))
       = Some 0
   \<and> fst (Confirm EventFd
            (snd (Confirm EventFd (the (notify_n EventFd 3 (snd (Open EventFd boot)))))))
       = Blocks"
proof -
  note run = boot_eventfd_run
  from run have op: "Open EventFd boot = (Returns CHIP_NO_ERROR, snd (Open EventFd boot))"
    by (cases "Open EventFd boot") simp
  from run have nf: "faults (snd (Open EventFd boot)) = []"
    by simp
  have small: "(3 :: nat) < 2 ^ 64 - 1"
    by simp
  from eventfd_counter_scenario [OF _ op nf small]
  obtain w2 w3 w4 where "wake_counter (snd (Open EventFd boot)) = Some 0"
    and "notify_n EventFd 3 (snd (Open EventFd boot)) = Some w2"
    and "wake_counter w2 = Some 3" and "Confirm EventFd w2 = (Returns (), w3)"
    and "wake_counter w3 = Some 0" and "Confirm EventFd w3 = (Blocks, w4)"
    by auto
  with run small show ?thesis
    by simp
qed

text \<open>
  C2. The specification's scenario: \<open>Open\<close> yields counter 0, three calls of \<open>Notify\<close> raise it to
  3, one \<open>Confirm\<close> fetches 3 and resets it to 0, and a second \<open>Confirm\<close> right after
  observes would-block and leaves the counter at 0. Run on the code from \<open>boot\<close>, all but
  the last step are as specified. The second \<open>Confirm\<close> observes no would-block: its read
  does not return, and neither does \<open>Confirm\<close>. \<open>Open\<close> creates the descriptor by
  \<open>eventfd(0, 0)\<close>, without \<open>EFD_NONBLOCK\<close>, although \<open>Confirm\<close> tests the read for
  \<open>EAGAIN\<close> and \<open>EWOULDBLOCK\<close>, which only a non-blocking descriptor reports, and although
  the pipe and FIFO builds make both their descriptors non-blocking.
\<close>

theorem eventfd_second_confirm_blocks:
  "fst (Open EventFd boot) = Returns CHIP_NO_ERROR
   \<and> wake_counter (the (notify_n EventFd 3 (snd (Open EventFd boot)))) = Some 3
   \<and> fst (Confirm EventFd (the (notify_n EventFd 3 (snd (Open EventFd boot))))) = Returns ()
   \<and> wake_counter (snd (Confirm EventFd (the (notify_n EventFd 3 (snd (Open EventFd boot))))))
       = Some 0
   \<and> fst (ReadEvent False
            (mReadFD (wake (snd (Confirm EventFd (the (notify_n EventFd 3 (snd (Open EventFd boot))))))))
            (snd (Confirm EventFd (the (notify_n EventFd 3 (snd (Open EventFd boot)))))))
       = Hang
   \<and> fst (Confirm EventFd
            (snd (Confirm EventFd (the (notify_n EventFd 3 (snd (Open EventFd boot)))))))
       = Blocks"
proof -
  note run = boot_eventfd_run
  from run have op: "Open_eventfd boot = (Returns CHIP_NO_ERROR, snd (Open EventFd boot))"
    by (cases "Open EventFd boot") (simp add: Open_def)
  from run have nf: "faults (snd (Open EventFd boot)) = []"
    by simp
  from Open_eventfd_opened [OF op]
  have eo: "event_opened (snd (Open EventFd boot))"
    and c0: "wake_counter (snd (Open EventFd boot)) = Some 0"
    by simp_all
  have small: "(3 :: nat) < 2 ^ 64 - 1"
    by simp
  from eventfd_run_from_zero [OF _ eo nf c0 small, of EventFd]
  obtain w2 w3 w4 where "notify_n EventFd 3 (snd (Open EventFd boot)) = Some w2"
    and "wake_counter w2 = Some 3" and "Confirm EventFd w2 = (Returns (), w3)"
    and "wake_counter w3 = Some 0"
    and "fst (ReadEvent False (mReadFD (wake w3)) w3) = Hang"
    and "Confirm EventFd w3 = (Blocks, w4)"
    by auto
  with run show ?thesis
    by simp
qed

section \<open>Notify and blocking\<close>

text \<open>
  Where \<open>Notify\<close> is sure to return. In every state reachable after a successful \<open>Open\<close>:
  in the pipe build \<open>Notify\<close> always returns; in the FIFO build it returns \<open>CHIP_NO_ERROR\<close>
  whenever its first write, on the non-blocking \<open>mWriteFD\<close>, succeeds or reports
  would-block; in the eventfd builds it returns whenever the counter is below
  \<open>2^64 - 2\<close>. In every build and state, returning or not, \<open>Notify\<close> makes at most four
  calls.
\<close>

theorem Notify_returns_where_nonblocking:
  assumes "reachable b w"
  shows "(b = Pipe \<longrightarrow> (\<exists>r w'. Notify b w = (Returns r, w')))
         \<and> (b = NamedFifo \<and> \<not> first_write_hard_fails b w
             \<longrightarrow> (\<exists>w'. Notify b w = (Returns CHIP_NO_ERROR, w')))
         \<and> ((b = EventFd \<or> b = ZephyrEventFd)
              \<and> (\<exists>c. wake_counter w = Some c \<and> unat c < 2 ^ 64 - 2)
             \<longrightarrow> (\<exists>r w'. Notify b w = (Returns r, w')))
         \<and> length (trace (snd (Notify b w))) \<le> length (trace w) + 4"
proof -
  note op = reachable_opened [OF assms]
  have "\<exists>r w'. Notify b w = (Returns r, w')" if "b = Pipe"
    using that op Notify_pipe_returns [of w] by (simp add: opened_def Notify_def)
  moreover have "\<exists>w'. Notify b w = (Returns CHIP_NO_ERROR, w')"
    if "b = NamedFifo \<and> \<not> first_write_hard_fails b w"
    using that op Notify_pipe_returns [of w] by (auto simp: opened_def Notify_def)
  moreover have "\<exists>r w'. Notify b w = (Returns r, w')"
    if "(b = EventFd \<or> b = ZephyrEventFd) \<and> (\<exists>c. wake_counter w = Some c \<and> unat c < 2 ^ 64 - 2)"
    using that op Notify_eventfd_returns [of w] by (auto simp: opened_def Notify_def)
  moreover have "length (trace (snd (Notify b w))) \<le> length (trace w) + 4"
    using Notify_pipe_trace Notify_eventfd_trace by (cases b) (simp_all add: Notify_def)
  ultimately show ?thesis
    by blast
qed

theorem Notify_returns_where_nonblocking_witness:
  "reachable Pipe full_pipe
   \<and> fst (Notify Pipe full_pipe) \<noteq> Blocks
   \<and> length (trace (snd (Notify Pipe full_pipe))) \<le> length (trace full_pipe) + 4
   \<and> reachable NamedFifo (snd (Open NamedFifo boot))
   \<and> \<not> first_write_hard_fails NamedFifo (snd (Open NamedFifo boot))
   \<and> fst (Notify NamedFifo (snd (Open NamedFifo boot))) = Returns CHIP_NO_ERROR
   \<and> reachable EventFd (snd (Open EventFd boot))
   \<and> wake_counter (snd (Open EventFd boot)) = Some 0
   \<and> unat (0 :: 64 word) < 2 ^ 64 - 2
   \<and> fst (Notify EventFd (snd (Open EventFd boot))) \<noteq> Blocks"
proof -
  note fifo = fifo_blocking_run and pipe = pipe_full_run and event = boot_eventfd_run
  from fifo have wf: "wf_world boot" and fo: "fst (Open NamedFifo boot) = Returns CHIP_NO_ERROR"
    and soft: "\<not> first_write_hard_fails NamedFifo (snd (Open NamedFifo boot))"
    by simp_all
  from pipe have po: "fst (Open Pipe boot) = Returns CHIP_NO_ERROR"
    and p1: "fst (Notify Pipe (snd (Open Pipe boot))) = Returns CHIP_NO_ERROR"
    and p2: "fst (Notify Pipe (snd (Notify Pipe (snd (Open Pipe boot))))) = Returns CHIP_NO_ERROR"
    by simp_all
  from event have eo: "fst (Open EventFd boot) = Returns CHIP_NO_ERROR"
    by simp
  from reachable_next [OF reachable_next [OF reachable_first [OF wf po] p1] p2]
  have rp: "reachable Pipe full_pipe"
    by (simp add: full_pipe_def)
  note rf = reachable_first [OF wf fo]
  note re = reachable_first [OF wf eo]
  from eo have "Open_eventfd boot = (Returns CHIP_NO_ERROR, snd (Open EventFd boot))"
    by (cases "Open EventFd boot") (simp add: Open_def)
  from Open_eventfd_opened [OF this] have c0: "wake_counter (snd (Open EventFd boot)) = Some 0"
    by simp
  have small: "unat (0 :: 64 word) < 2 ^ 64 - 2"
    by simp
  from Notify_returns_where_nonblocking [OF rp]
  have a: "fst (Notify Pipe full_pipe) \<noteq> Blocks
           \<and> length (trace (snd (Notify Pipe full_pipe))) \<le> length (trace full_pipe) + 4"
    by auto
  from Notify_returns_where_nonblocking [OF rf] soft
  have b: "fst (Notify NamedFifo (snd (Open NamedFifo boot))) = Returns CHIP_NO_ERROR"
    by auto
  from Notify_returns_where_nonblocking [OF re] c0 small
  have c: "fst (Notify EventFd (snd (Open EventFd boot))) \<noteq> Blocks"
    by auto
  from a b c rp rf re soft c0 small show ?thesis
    by simp
qed

text \<open>
  C5. The specification asks: in every state reachable after a successful \<open>Open\<close>, \<open>Notify\<close> returns to
  its caller and makes no call that can wait without bound, the FIFO build's second half
  included. The code has two reachable states where \<open>Notify\<close> does not return. In the
  FIFO build: the FIFO is full after two calls, the first write of the third fails with
  \<open>EBADF\<close>, and the byte is then written to a descriptor that the second half opened
  with \<open>O_WRONLY\<close> alone, where \<open>Open\<close> passes \<open>O_WRONLY | O_NONBLOCK\<close> for the same path:
  the write waits for room. In the eventfd build: after \<open>2^64 - 2\<close> calls the counter is
  at its maximum and the descriptor, created by \<open>eventfd(0, 0)\<close> without \<open>EFD_NONBLOCK\<close>,
  is a blocking one: the write waits, where \<open>Notify\<close> tests it for would-block.
\<close>

theorem Notify_can_block:
  "reachable NamedFifo full_fifo_fault \<and> fst (Notify NamedFifo full_fifo_fault) = Blocks
   \<and> reachable EventFd (the (notify_n EventFd (2 ^ 64 - 2) (snd (Open EventFd boot))))
   \<and> fst (Notify EventFd (the (notify_n EventFd (2 ^ 64 - 2) (snd (Open EventFd boot)))))
       = Blocks"
proof -
  note run = fifo_blocking_run
  from run have wf: "wf_world boot" and o: "fst (Open NamedFifo boot) = Returns CHIP_NO_ERROR"
    and n1: "fst (Notify NamedFifo (snd (Open NamedFifo boot))) = Returns CHIP_NO_ERROR"
    and n2: "fst (Notify NamedFifo (snd (Notify NamedFifo (snd (Open NamedFifo boot)))))
             = Returns CHIP_NO_ERROR"
    and blocks: "fst (Notify NamedFifo full_fifo_fault) = Blocks"
    by simp_all
  note r0 = reachable_first [OF wf o]
  note r1 = reachable_next [OF r0 n1]
  note r2 = reachable_next [OF r1 n2]
  from reachable_faults [OF r2, of "[Some EBADF]"] have "reachable NamedFifo full_fifo_fault"
    by (simp add: full_fifo_fault_def)
  moreover from boot_eventfd_run have "fst (Open EventFd boot) = Returns CHIP_NO_ERROR"
    and "faults (snd (Open EventFd boot)) = []"
    by simp_all
  note eventfd_saturated [OF this wf]
  ultimately show ?thesis
    using blocks by simp
qed

section \<open>The WiFi driver: one stored network, commit and revert\<close>

text \<open>
  C9. Whenever a network is staged (\<open>ssidLen \<noteq> 0\<close>), \<open>AddOrUpdateNetwork\<close> with an SSID
  that does not match the staged one answers \<open>kBoundsExceeded\<close> and leaves the driver,
  hence the staged network, as it was; and \<open>Count\<close> is never more than 1, in any driver
  state.
\<close>

theorem AddOrUpdateNetwork_one_network:
  assumes "ssidLen (mStagingNetwork d) \<noteq> 0"
    and "\<not> NetworkMatch (mStagingNetwork d) ssid_in"
  shows "fst (AddOrUpdateNetwork ssid_in credentials_in txt d) = kBoundsExceeded
         \<and> snd (snd (snd (AddOrUpdateNetwork ssid_in credentials_in txt d))) = d
         \<and> Count d \<le> 1
         \<and> Count (snd (snd (snd (AddOrUpdateNetwork ssid_in' credentials_in' txt' d')))) \<le> 1"
  using assms by (simp add: AddOrUpdateNetwork_def Count_def Let_def)

theorem AddOrUpdateNetwork_one_network_witness:
  "ssidLen \<lparr>ssid = [1, 2, 0, 0], ssidLen = 2, credentials = [9, 0, 0, 0], credentialsLen = 1\<rparr> \<noteq> 0
   \<and> \<not> NetworkMatch
         \<lparr>ssid = [1, 2, 0, 0], ssidLen = 2, credentials = [9, 0, 0, 0], credentialsLen = 1\<rparr> [1, 3]
   \<and> fst (AddOrUpdateNetwork [1, 3] [7] ''x''
        \<lparr>mSavedNetwork =
           \<lparr>ssid = [0, 0, 0, 0], ssidLen = 0, credentials = [0, 0, 0, 0], credentialsLen = 0\<rparr>,
         mStagingNetwork =
           \<lparr>ssid = [1, 2, 0, 0], ssidLen = 2, credentials = [9, 0, 0, 0], credentialsLen = 1\<rparr>\<rparr>)
       = kBoundsExceeded
   \<and> mStagingNetwork (snd (snd (snd (AddOrUpdateNetwork [1, 3] [7] ''x''
        \<lparr>mSavedNetwork =
           \<lparr>ssid = [0, 0, 0, 0], ssidLen = 0, credentials = [0, 0, 0, 0], credentialsLen = 0\<rparr>,
         mStagingNetwork =
           \<lparr>ssid = [1, 2, 0, 0], ssidLen = 2, credentials = [9, 0, 0, 0], credentialsLen = 1\<rparr>\<rparr>))))
       = \<lparr>ssid = [1, 2, 0, 0], ssidLen = 2, credentials = [9, 0, 0, 0], credentialsLen = 1\<rparr>"
proof -
  let ?staged =
    "\<lparr>ssid = [1, 2, 0, 0], ssidLen = 2, credentials = [9, 0, 0, 0], credentialsLen = 1\<rparr>
      :: WiFiNetwork"
  let ?d =
    "\<lparr>mSavedNetwork =
        \<lparr>ssid = [0, 0, 0, 0], ssidLen = 0, credentials = [0, 0, 0, 0], credentialsLen = 0\<rparr>,
      mStagingNetwork = ?staged\<rparr>"
  have staged: "ssidLen (mStagingNetwork ?d) \<noteq> 0"
    by simp
  have differs: "\<not> NetworkMatch (mStagingNetwork ?d) [1, 3]"
    by (simp add: NetworkMatch_def memcmp_eq_def)
  from AddOrUpdateNetwork_one_network [OF staged differs, of "[7]" "''x''"] staged differs
  show ?thesis
    by simp
qed

text \<open>
  C10. After a successful \<open>CommitConfiguration\<close> the saved network equals the staging
  network, which the commit did not change, so \<open>RevertConfiguration\<close> right after it
  gives back the same driver state; and \<open>RevertConfiguration\<close> twice is
  \<open>RevertConfiguration\<close> once, in any driver state.
\<close>

theorem commit_then_revert:
  assumes "CommitConfiguration put (d, k) = (CHIP_NO_ERROR, d', k')"
  shows "mSavedNetwork d' = mStagingNetwork d'
         \<and> mStagingNetwork d' = mStagingNetwork d
         \<and> RevertConfiguration d' = (CHIP_NO_ERROR, d')
         \<and> mStagingNetwork (snd (RevertConfiguration d')) = mStagingNetwork d'
         \<and> RevertConfiguration (snd (RevertConfiguration e)) = RevertConfiguration e"
proof -
  from assms have d': "d' = d\<lparr>mSavedNetwork := mStagingNetwork d\<rparr>"
    by (auto simp: CommitConfiguration_def Let_def split: if_splits)
  show ?thesis
    by (simp add: d' RevertConfiguration_def)
qed

theorem commit_then_revert_witness:
  "CommitConfiguration (\<lambda>key v store. (CHIP_NO_ERROR, (key, v) # store))
      (\<lparr>mSavedNetwork =
          \<lparr>ssid = [0, 0, 0, 0], ssidLen = 0, credentials = [0, 0, 0, 0], credentialsLen = 0\<rparr>,
        mStagingNetwork =
          \<lparr>ssid = [1, 2, 0, 0], ssidLen = 2, credentials = [9, 0, 0, 0], credentialsLen = 1\<rparr>\<rparr>,
       [])
    = (CHIP_NO_ERROR,
       \<lparr>mSavedNetwork =
          \<lparr>ssid = [1, 2, 0, 0], ssidLen = 2, credentials = [9, 0, 0, 0], credentialsLen = 1\<rparr>,
        mStagingNetwork =
          \<lparr>ssid = [1, 2, 0, 0], ssidLen = 2, credentials = [9, 0, 0, 0], credentialsLen = 1\<rparr>\<rparr>,
       [(''wifi-pass'', [9]), (''wifi-ssid'', [1, 2])])
   \<and> RevertConfiguration
       \<lparr>mSavedNetwork =
          \<lparr>ssid = [1, 2, 0, 0], ssidLen = 2, credentials = [9, 0, 0, 0], credentialsLen = 1\<rparr>,
        mStagingNetwork =
          \<lparr>ssid = [1, 2, 0, 0], ssidLen = 2, credentials = [9, 0, 0, 0], credentialsLen = 1\<rparr>\<rparr>
    = (CHIP_NO_ERROR,
       \<lparr>mSavedNetwork =
          \<lparr>ssid = [1, 2, 0, 0], ssidLen = 2, credentials = [9, 0, 0, 0], credentialsLen = 1\<rparr>,
        mStagingNetwork =
          \<lparr>ssid = [1, 2, 0, 0], ssidLen = 2, credentials = [9, 0, 0, 0], credentialsLen = 1\<rparr>\<rparr>)"
proof -
  let ?put = "\<lambda>key v store. (CHIP_NO_ERROR, (key, v) # store)"
  let ?staged =
    "\<lparr>ssid = [1, 2, 0, 0], ssidLen = 2, credentials = [9, 0, 0, 0], credentialsLen = 1\<rparr>
      :: WiFiNetwork"
  let ?d =
    "\<lparr>mSavedNetwork =
        \<lparr>ssid = [0, 0, 0, 0], ssidLen = 0, credentials = [0, 0, 0, 0], credentialsLen = 0\<rparr>,
      mStagingNetwork = ?staged\<rparr>"
  let ?d' = "\<lparr>mSavedNetwork = ?staged, mStagingNetwork = ?staged\<rparr>"
  have commit:
    "CommitConfiguration ?put (?d, []) =
       (CHIP_NO_ERROR, ?d', [(''wifi-pass'', [9]), (''wifi-ssid'', [1, 2])])"
    by (simp add: CommitConfiguration_def kWiFiSSIDKeyName_def kWiFiCredentialsKeyName_def Let_def)
  from commit_then_revert [OF commit] commit show ?thesis
    by simp
qed

end
